theory Spec2Isabelle
  imports Main
begin

section \<open>Python values, byte strings and exceptions\<close>

text \<open>
  The model of \<^verbatim>\<open>src/cachelib/redis.py\<close> (class \<^verbatim>\<open>RedisCache\<close>).
  A byte string is a list of characters (a \<open>char\<close> is a byte); keys are text strings.
\<close>

type_synonym bytes = string

text \<open>
  The values that reach \<^verbatim>\<open>dump_object\<close>. \<open>PyInt\<close> is a value whose runtime type is
  exactly \<^verbatim>\<open>int\<close>; a boolean is a separate constructor, as \<^verbatim>\<open>type(True) == int\<close> is
  false in Python. \<open>PyObject\<close> is any other object, named by its repr.
\<close>

datatype pyval =
    PyNone
  | PyBool bool
  | PyInt int
  | PyBytes bytes
  | PyStr string
  | PyList "pyval list"
  | PyTuple "pyval list"
  | PyDict "(pyval \<times> pyval) list"
  | PyObject string

text \<open>The exception classes that occur; the three pickle classes form one hierarchy.\<close>

datatype exc =
    ValueError
  | RuntimeError
  | TypeError
  | AttributeError
  | ImportError
  | IndexError
  | EOFError
  | PickleError
  | PicklingError
  | UnpicklingError
  | RedisError

text \<open>\<^verbatim>\<open>isinstance(e, pickle.PickleError)\<close>: the class itself and its two subclasses.\<close>

fun is_PickleError :: "exc \<Rightarrow> bool" where
  "is_PickleError PickleError = True"
| "is_PickleError PicklingError = True"
| "is_PickleError UnpicklingError = True"
| "is_PickleError _ = False"

text \<open>\<^verbatim>\<open>type(value) == int\<close>.\<close>

fun type_is_int :: "pyval \<Rightarrow> bool" where
  "type_is_int (PyInt n) = True"
| "type_is_int _ = False"

section \<open>The built-ins \<^verbatim>\<open>str(int)\<close> and \<^verbatim>\<open>int(bytes)\<close>\<close>

text \<open>
  Python integers are unbounded, but CPython limits the number of decimal digits of a
  conversion between \<^verbatim>\<open>int\<close> and text: beyond \<^verbatim>\<open>sys.int_info.default_max_str_digits\<close>,
  which is 4300, both \<^verbatim>\<open>str(n)\<close> and \<^verbatim>\<open>int(b)\<close> raise \<^verbatim>\<open>ValueError\<close>. The sign, white
  space and underscores do not count as digits.
\<close>

definition max_str_digits :: nat where
  "max_str_digits = 4300"

definition digit_char :: "nat \<Rightarrow> char" where
  "digit_char d = char_of (48 + d)"

definition is_digit :: "char \<Rightarrow> bool" where
  "is_digit c \<longleftrightarrow> 48 \<le> (of_char c :: nat) \<and> (of_char c :: nat) \<le> 57"

definition digit_value :: "char \<Rightarrow> int" where
  "digit_value c = int (of_char c) - 48"

text \<open>\<^verbatim>\<open>Py_ISSPACE\<close>: space, and the bytes 0x09 to 0x0d.\<close>

definition is_space :: "char \<Rightarrow> bool" where
  "is_space c \<longleftrightarrow> (of_char c :: nat) = 32 \<or> (9 \<le> (of_char c :: nat) \<and> (of_char c :: nat) \<le> 13)"

fun nat_digits :: "nat \<Rightarrow> string" where
  "nat_digits n = (if n < 10 then [digit_char n] else nat_digits (n div 10) @ [digit_char (n mod 10)])"

declare nat_digits.simps [simp del]

text \<open>
  \<^verbatim>\<open>str(n).encode("ascii")\<close> for an integer \<open>n\<close>: the decimal digits of \<open>\<bar>n\<bar>\<close>, after
  \<^verbatim>\<open>-\<close> when \<open>n\<close> is negative, or \<^verbatim>\<open>ValueError\<close> when there are too many digits.
\<close>

definition str_int :: "int \<Rightarrow> exc + bytes" where
  "str_int n =
     (if max_str_digits < length (nat_digits (nat \<bar>n\<bar>)) then Inl ValueError
      else Inr (if n < 0 then CHR ''-'' # nat_digits (nat (- n)) else nat_digits (nat n)))"

text \<open>
  \<^verbatim>\<open>int(value)\<close> for a bytes object is \<^verbatim>\<open>PyLong_FromString\<close> in base 10: leading
  white space is skipped, then an optional sign \<^verbatim>\<open>+\<close> or \<^verbatim>\<open>-\<close>, then digits, where a
  single underscore may stand between two digits; trailing white space is skipped, and
  nothing may follow. More digits than the limit are refused. Every failure is a
  \<^verbatim>\<open>ValueError\<close>.
\<close>

fun parse_sign :: "bytes \<Rightarrow> int \<times> bytes" where
  "parse_sign [] = (1, [])"
| "parse_sign (c # cs) =
     (if c = CHR ''+'' then (1, cs) else if c = CHR ''-'' then (- 1, cs) else (1, c # cs))"

text \<open>
  The scanning loop: \<open>pu\<close> says that the previous character was an underscore, \<open>acc\<close> is
  the value of the digits read and \<open>digits\<close> their number. Two underscores in a row and
  an underscore at the end of the digits are errors (\<open>None\<close>).
\<close>

fun scan_digits :: "bool \<Rightarrow> int \<Rightarrow> nat \<Rightarrow> bytes \<Rightarrow> (int \<times> nat \<times> bytes) option" where
  "scan_digits pu acc digits [] = (if pu then None else Some (acc, digits, []))"
| "scan_digits pu acc digits (c # cs) =
     (if c = CHR ''_'' then (if pu then None else scan_digits True acc digits cs)
      else if is_digit c then scan_digits False (acc * 10 + digit_value c) (Suc digits) cs
      else if pu then None else Some (acc, digits, c # cs))"

definition int_of_bytes :: "bytes \<Rightarrow> exc + int" where
  "int_of_bytes bs =
     (case parse_sign (dropWhile is_space bs) of
        (sign, s) \<Rightarrow>
          (case s of
             [] \<Rightarrow> Inl ValueError
           | c # _ \<Rightarrow>
               if \<not> is_digit c then Inl ValueError
               else (case scan_digits False 0 0 s of
                       None \<Rightarrow> Inl ValueError
                     | Some (n, digits, rest) \<Rightarrow>
                         if max_str_digits < digits then Inl ValueError
                         else if dropWhile is_space rest = [] then Inr (sign * n)
                         else Inl ValueError)))"

section \<open>The codec\<close>

text \<open>
  The \<^verbatim>\<open>pickle\<close> module is not part of the repository: it is a parameter. Either of its
  functions returns (\<open>Inr\<close>) or raises (\<open>Inl\<close>).
\<close>

record pickle =
  dumps :: "pyval \<Rightarrow> exc + bytes"
  loads :: "bytes \<Rightarrow> exc + pyval"

definition startswith :: "bytes \<Rightarrow> bytes \<Rightarrow> bool" where
  "startswith value p \<longleftrightarrow> take (length p) value = p"

text \<open>
  \<^verbatim>\<open>
  def dump_object(self, value):
      if type(value) == int:
          return str(value).encode("ascii")
      return b"!" + pickle.dumps(value)
  \<close>
\<close>

definition dump_object :: "pickle \<Rightarrow> pyval \<Rightarrow> exc + bytes" where
  "dump_object P v =
     (case v of
        PyInt n \<Rightarrow> str_int n
      | _ \<Rightarrow> (case dumps P v of Inl e \<Rightarrow> Inl e | Inr b \<Rightarrow> Inr (''!'' @ b)))"

text \<open>
  \<^verbatim>\<open>
  def load_object(self, value):
      if value is None:
          return None
      if value.startswith(b"!"):
          try:
              return pickle.loads(value[1:])
          except pickle.PickleError:
              return None
      try:
          return int(value)
      except ValueError:
          return value
  \<close>
\<close>

definition load_object :: "pickle \<Rightarrow> bytes option \<Rightarrow> exc + pyval" where
  "load_object P value =
     (case value of
        None \<Rightarrow> Inr PyNone
      | Some b \<Rightarrow>
          if startswith b ''!'' then
            (case loads P (drop 1 b) of
               Inr v \<Rightarrow> Inr v
             | Inl e \<Rightarrow> if is_PickleError e then Inr PyNone else Inl e)
          else
            (case int_of_bytes b of
               Inr n \<Rightarrow> Inr (PyInt n)
             | Inl e \<Rightarrow> if e = ValueError then Inr (PyBytes b) else Inl e))"


text \<open>
  What the digits of a literal spell and how many they are, and the two shapes of integer
  text: the plain one (decimal digits after an optional \<^verbatim>\<open>-\<close>) and everything \<^verbatim>\<open>int()\<close>
  accepts.
\<close>

definition digit_count :: "bytes \<Rightarrow> nat" where
  "digit_count s = length (filter is_digit s)"

definition int_digits :: "int \<Rightarrow> nat" where
  "int_digits n = length (nat_digits (nat \<bar>n\<bar>))"

definition int_text :: "int \<Rightarrow> bytes" where
  "int_text n = (if n < 0 then CHR ''-'' # nat_digits (nat (- n)) else nat_digits (nat n))"

definition decimal_value :: "bytes \<Rightarrow> int" where
  "decimal_value s = foldl (\<lambda>a c. if c = CHR ''_'' then a else a * 10 + digit_value c) 0 s"

definition plain_decimal :: "bytes \<Rightarrow> bool" where
  "plain_decimal b =
     (case b of
        [] \<Rightarrow> False
      | c # cs \<Rightarrow> if c = CHR ''-'' then cs \<noteq> [] \<and> list_all is_digit cs else list_all is_digit b)"

definition plain_value :: "bytes \<Rightarrow> int" where
  "plain_value b =
     (case b of
        [] \<Rightarrow> 0
      | c # cs \<Rightarrow> if c = CHR ''-'' then - decimal_value cs else decimal_value b)"

text \<open>Digits in groups: a digit, then digits, each after at most one underscore.\<close>

fun digit_groups :: "bytes \<Rightarrow> bool" where
  "digit_groups [] = False"
| "digit_groups [c] = is_digit c"
| "digit_groups (c # d # s) =
     (is_digit c \<and> (if d = CHR ''_'' then digit_groups s else digit_groups (d # s)))"

definition sign_value :: "bytes \<Rightarrow> int" where
  "sign_value sg = (if sg = ''-'' then - 1 else 1)"

definition int_literal :: "bytes \<Rightarrow> bool" where
  "int_literal b \<longleftrightarrow>
     (\<exists>ws1 sg body ws2. b = ws1 @ sg @ body @ ws2 \<and> list_all is_space ws1 \<and>
        list_all is_space ws2 \<and> (sg = [] \<or> sg = ''+'' \<or> sg = ''-'') \<and> digit_groups body \<and>
        digit_count body \<le> max_str_digits)"

section \<open>The store client\<close>

text \<open>
  The Redis client (redis-py) is an external collaborator: a record of the methods the
  cache calls, over a store state \<open>'s\<close>. A method returns a reply (\<open>Inr\<close>) or raises
  (\<open>Inl\<close>), and leaves a new store state. The world of a cache operation is the list of
  commands issued so far together with the store state.
\<close>

datatype command =
    GET string
  | MGET "string list"
  | SET string bytes
  | SETEX string bytes int
  | SETNX string bytes
  | EXPIRE string int
  | DEL "string list"

record 's redis_client =
  client_get :: "string \<Rightarrow> 's \<Rightarrow> (exc + bytes option) \<times> 's"
  client_mget :: "string list \<Rightarrow> 's \<Rightarrow> (exc + bytes option list) \<times> 's"
  client_set :: "string \<Rightarrow> bytes \<Rightarrow> 's \<Rightarrow> (exc + bool option) \<times> 's"
  client_setex :: "string \<Rightarrow> bytes \<Rightarrow> int \<Rightarrow> 's \<Rightarrow> (exc + bool option) \<times> 's"
  client_setnx :: "string \<Rightarrow> bytes \<Rightarrow> 's \<Rightarrow> (exc + bool) \<times> 's"
  client_expire :: "string \<Rightarrow> int \<Rightarrow> 's \<Rightarrow> (exc + bool) \<times> 's"
  client_delete :: "string list \<Rightarrow> 's \<Rightarrow> (exc + int) \<times> 's"

type_synonym 's world = "command list \<times> 's"

definition issue :: "command \<Rightarrow> ('s \<Rightarrow> 'r \<times> 's) \<Rightarrow> 's world \<Rightarrow> 'r \<times> 's world" where
  "issue cmd m w = (case m (snd w) of (r, s') \<Rightarrow> (r, (fst w @ [cmd], s')))"

section \<open>The cache backend\<close>

text \<open>
  The attributes of a \<^verbatim>\<open>RedisCache\<close> object. \<open>client\<close> is \<^verbatim>\<open>self._client\<close>; it is
  \<open>None\<close> while the attribute has not been assigned, and reading it then raises
  \<^verbatim>\<open>AttributeError\<close>.
\<close>

record 's RedisCache =
  default_timeout :: int
  key_prefix :: string
  client :: "'s redis_client option"

definition get_client :: "'s RedisCache \<Rightarrow> exc + 's redis_client" where
  "get_client self = (case client self of None \<Rightarrow> Inl AttributeError | Some c \<Rightarrow> Inr c)"

text \<open>
  Modelled from the spec: \<^verbatim>\<open>BaseCache.__init__\<close> of \<^verbatim>\<open>cachelib/base.py\<close>, which is not
  among the sources. The spec: the configuration holds \<^verbatim>\<open>defaultTimeoutSeconds\<close>, used
  when a call omits an explicit timeout. The other attributes are not assigned yet.
\<close>

definition BaseCache_init :: "int \<Rightarrow> 's RedisCache" where
  "BaseCache_init dt = \<lparr>default_timeout = dt, key_prefix = [], client = None\<rparr>"

text \<open>
  Modelled from the spec: \<^verbatim>\<open>BaseCache._normalize_timeout\<close> of \<^verbatim>\<open>cachelib/base.py\<close>, which
  is not among the sources. The spec: if the timeout is unspecified, substitute
  \<^verbatim>\<open>defaultTimeoutSeconds\<close>.
\<close>

definition BaseCache_normalize_timeout :: "'s RedisCache \<Rightarrow> int option \<Rightarrow> int" where
  "BaseCache_normalize_timeout self timeout =
     (case timeout of None \<Rightarrow> default_timeout self | Some t \<Rightarrow> t)"

text \<open>Python truthiness, for \<^verbatim>\<open>if kwargs.get("decode_responses", None)\<close>.\<close>

fun truthy :: "pyval \<Rightarrow> bool" where
  "truthy PyNone = False"
| "truthy (PyBool b) = b"
| "truthy (PyInt n) = (n \<noteq> 0)"
| "truthy (PyBytes b) = (b \<noteq> [])"
| "truthy (PyStr s) = (s \<noteq> [])"
| "truthy (PyList xs) = (xs \<noteq> [])"
| "truthy (PyTuple xs) = (xs \<noteq> [])"
| "truthy (PyDict kvs) = (kvs \<noteq> [])"
| "truthy (PyObject r) = True"

text \<open>\<^verbatim>\<open>kwargs.get(name, default)\<close>.\<close>

definition kwargs_get :: "(string \<times> pyval) list \<Rightarrow> string \<Rightarrow> pyval \<Rightarrow> pyval" where
  "kwargs_get kwargs name d = (case map_of kwargs name of None \<Rightarrow> d | Some v \<Rightarrow> v)"

text \<open>
  The first argument of the constructor: \<^verbatim>\<open>None\<close>, a string, or (as the docstring
  allows) an object with the client's API.
\<close>

datatype 's host_arg = HostNone | HostStr string | HostClient "'s redis_client"

type_synonym kwargs = "(string \<times> pyval) list"

text \<open>
  The \<^verbatim>\<open>redis\<close> module, when it can be imported, is its constructor
  \<^verbatim>\<open>redis.Redis(host, port, password, db, **kwargs)\<close>.
\<close>

type_synonym 's redis_module =
  "string \<Rightarrow> int \<Rightarrow> string option \<Rightarrow> int \<Rightarrow> kwargs \<Rightarrow> exc + 's redis_client"

text \<open>
  \<^verbatim>\<open>
  def __init__(self, host="localhost", port=6379, password=None, db=0,
               default_timeout=300, key_prefix=None, **kwargs):
      BaseCache.__init__(self, default_timeout)
      if host is None:
          raise ValueError("RedisCache host parameter may not be None")
      if isinstance(host, str):
          try:
              import redis
          except ImportError:
              raise RuntimeError("no redis module found")
          if kwargs.get("decode_responses", None):
              raise ValueError("decode_responses is not supported by RedisCache.")
          self._client = redis.Redis(host=host, port=port, password=password, db=db, **kwargs)
      self.key_prefix = key_prefix or ""
  \<close>
\<close>

definition init ::
  "'s redis_module option \<Rightarrow> 's host_arg \<Rightarrow> int \<Rightarrow> string option \<Rightarrow> int \<Rightarrow> int \<Rightarrow>
   string option \<Rightarrow> kwargs \<Rightarrow> exc + 's RedisCache" where
  "init redis host port password db dt prefix kwargs =
     (let self = BaseCache_init dt;
          prefix' = (case prefix of None \<Rightarrow> [] | Some p \<Rightarrow> if p = [] then [] else p)
      in case host of
           HostNone \<Rightarrow> Inl ValueError
         | HostStr h \<Rightarrow>
             (case redis of
                None \<Rightarrow> Inl RuntimeError
              | Some Redis \<Rightarrow>
                  if truthy (kwargs_get kwargs ''decode_responses'' PyNone) then Inl ValueError
                  else (case Redis h port password db kwargs of
                          Inl e \<Rightarrow> Inl e
                        | Inr c \<Rightarrow> Inr (self\<lparr>key_prefix := prefix', client := Some c\<rparr>)))
         | HostClient c \<Rightarrow> Inr (self\<lparr>key_prefix := prefix'\<rparr>))"

text \<open>
  \<^verbatim>\<open>
  def _normalize_timeout(self, timeout):
      timeout = BaseCache._normalize_timeout(self, timeout)
      if timeout == 0:
          timeout = -1
      return timeout
  \<close>
\<close>

definition normalize_timeout :: "'s RedisCache \<Rightarrow> int option \<Rightarrow> int" where
  "normalize_timeout self timeout =
     (let t = BaseCache_normalize_timeout self timeout in if t = 0 then - 1 else t)"

text \<open>
  \<^verbatim>\<open>
  def get(self, key):
      return self.load_object(self._client.get(self.key_prefix + key))
  \<close>
\<close>

definition get :: "'s RedisCache \<Rightarrow> pickle \<Rightarrow> string \<Rightarrow> 's world \<Rightarrow> (exc + pyval) \<times> 's world" where
  "get self P key w =
     (case get_client self of
        Inl e \<Rightarrow> (Inl e, w)
      | Inr c \<Rightarrow>
          (case issue (GET (key_prefix self @ key)) (client_get c (key_prefix self @ key)) w of
             (Inl e, w') \<Rightarrow> (Inl e, w')
           | (Inr x, w') \<Rightarrow> (load_object P x, w')))"

text \<open>
  The list comprehension \<^verbatim>\<open>[self.load_object(x) for x in ...]\<close>: the first call that
  raises ends it.
\<close>

fun load_objects :: "pickle \<Rightarrow> bytes option list \<Rightarrow> exc + pyval list" where
  "load_objects P [] = Inr []"
| "load_objects P (x # xs) =
     (case load_object P x of
        Inl e \<Rightarrow> Inl e
      | Inr v \<Rightarrow> (case load_objects P xs of Inl e \<Rightarrow> Inl e | Inr vs \<Rightarrow> Inr (v # vs)))"

text \<open>
  \<^verbatim>\<open>
  def get_many(self, *keys):
      if self.key_prefix:
          prefixed_keys = [self.key_prefix + key for key in keys]
      else:
          prefixed_keys = [k for k in keys]
      return [self.load_object(x) for x in self._client.mget(prefixed_keys)]
  \<close>
\<close>

definition prefixed :: "'s RedisCache \<Rightarrow> string list \<Rightarrow> string list" where
  "prefixed self keys =
     (if key_prefix self \<noteq> [] then map (\<lambda>key. key_prefix self @ key) keys
      else map (\<lambda>k. k) keys)"

definition get_many ::
  "'s RedisCache \<Rightarrow> pickle \<Rightarrow> string list \<Rightarrow> 's world \<Rightarrow> (exc + pyval list) \<times> 's world" where
  "get_many self P keys w =
     (let prefixed_keys = prefixed self keys
      in case get_client self of
           Inl e \<Rightarrow> (Inl e, w)
         | Inr c \<Rightarrow>
             (case issue (MGET prefixed_keys) (client_mget c prefixed_keys) w of
                (Inl e, w') \<Rightarrow> (Inl e, w')
              | (Inr xs, w') \<Rightarrow> (load_objects P xs, w')))"

text \<open>
  \<^verbatim>\<open>
  def set(self, key, value, timeout=None):
      timeout = self._normalize_timeout(timeout)
      dump = self.dump_object(value)
      if timeout == -1:
          result = self._client.set(name=self.key_prefix + key, value=dump)
      else:
          result = self._client.setex(name=self.key_prefix + key, value=dump, time=timeout)
      return result
  \<close>
\<close>

definition set_op ::
  "'s RedisCache \<Rightarrow> pickle \<Rightarrow> string \<Rightarrow> pyval \<Rightarrow> int option \<Rightarrow> 's world \<Rightarrow>
   (exc + bool option) \<times> 's world" where
  "set_op self P key value timeout w =
     (let timeout' = normalize_timeout self timeout
      in case dump_object P value of
           Inl e \<Rightarrow> (Inl e, w)
         | Inr dump \<Rightarrow>
             (case get_client self of
                Inl e \<Rightarrow> (Inl e, w)
              | Inr c \<Rightarrow>
                  if timeout' = - 1 then
                    issue (SET (key_prefix self @ key) dump)
                      (client_set c (key_prefix self @ key) dump) w
                  else
                    issue (SETEX (key_prefix self @ key) dump timeout')
                      (client_setex c (key_prefix self @ key) dump timeout') w))"

text \<open>
  \<^verbatim>\<open>
  def add(self, key, value, timeout=None):
      timeout = self._normalize_timeout(timeout)
      dump = self.dump_object(value)
      return self._client.setnx(
          name=self.key_prefix + key, value=dump
      ) and self._client.expire(name=self.key_prefix + key, time=timeout)
  \<close>
  Python's \<^verbatim>\<open>a and b\<close> is \<open>a\<close> when \<open>a\<close> is false, and only then is \<open>b\<close> not evaluated.
\<close>

definition add ::
  "'s RedisCache \<Rightarrow> pickle \<Rightarrow> string \<Rightarrow> pyval \<Rightarrow> int option \<Rightarrow> 's world \<Rightarrow>
   (exc + bool) \<times> 's world" where
  "add self P key value timeout w =
     (let timeout' = normalize_timeout self timeout
      in case dump_object P value of
           Inl e \<Rightarrow> (Inl e, w)
         | Inr dump \<Rightarrow>
             (case get_client self of
                Inl e \<Rightarrow> (Inl e, w)
              | Inr c \<Rightarrow>
                  (case issue (SETNX (key_prefix self @ key) dump)
                          (client_setnx c (key_prefix self @ key) dump) w of
                     (Inl e, w') \<Rightarrow> (Inl e, w')
                   | (Inr r, w') \<Rightarrow>
                       if \<not> r then (Inr r, w')
                       else issue (EXPIRE (key_prefix self @ key) timeout')
                              (client_expire c (key_prefix self @ key) timeout') w')))"

text \<open>
  \<^verbatim>\<open>
  def delete_many(self, *keys):
      if not keys:
          return None
      if self.key_prefix:
          prefixed_keys = [self.key_prefix + key for key in keys]
      else:
          prefixed_keys = [k for k in keys]
      return self._client.delete(*prefixed_keys)
  \<close>
\<close>

definition delete_many ::
  "'s RedisCache \<Rightarrow> string list \<Rightarrow> 's world \<Rightarrow> (exc + int option) \<times> 's world" where
  "delete_many self keys w =
     (if keys = [] then (Inr None, w)
      else
        let prefixed_keys = prefixed self keys
        in case get_client self of
             Inl e \<Rightarrow> (Inl e, w)
           | Inr c \<Rightarrow>
               (case issue (DEL prefixed_keys) (client_delete c prefixed_keys) w of
                  (Inl e, w') \<Rightarrow> (Inl e, w')
                | (Inr n, w') \<Rightarrow> (Inr (Some n), w')))"

section \<open>A reference store\<close>

text \<open>
  The commands of a Redis server as its documentation gives them, on a store that maps a
  key to its payload and its time to live in seconds (\<open>None\<close>: the key never expires).
  \<^verbatim>\<open>SET\<close> drops a time to live, \<^verbatim>\<open>SETEX\<close> refuses a time that is not positive,
  \<^verbatim>\<open>SETNX\<close> writes only an absent key, \<^verbatim>\<open>EXPIRE\<close> with a time that is not positive
  deletes the key, \<^verbatim>\<open>DEL\<close> counts the keys it removes. Time does not pass in this model.
\<close>

type_synonym redis_db = "string \<rightharpoonup> bytes \<times> int option"

definition redis_get :: "string \<Rightarrow> redis_db \<Rightarrow> (exc + bytes option) \<times> redis_db" where
  "redis_get k db = (Inr (map_option fst (db k)), db)"

definition redis_mget :: "string list \<Rightarrow> redis_db \<Rightarrow> (exc + bytes option list) \<times> redis_db" where
  "redis_mget ks db = (Inr (map (\<lambda>k. map_option fst (db k)) ks), db)"

definition redis_set :: "string \<Rightarrow> bytes \<Rightarrow> redis_db \<Rightarrow> (exc + bool option) \<times> redis_db" where
  "redis_set k v db = (Inr (Some True), db(k \<mapsto> (v, None)))"

definition redis_setex ::
  "string \<Rightarrow> bytes \<Rightarrow> int \<Rightarrow> redis_db \<Rightarrow> (exc + bool option) \<times> redis_db" where
  "redis_setex k v t db =
     (if t \<le> 0 then (Inl RedisError, db) else (Inr (Some True), db(k \<mapsto> (v, Some t))))"

definition redis_setnx :: "string \<Rightarrow> bytes \<Rightarrow> redis_db \<Rightarrow> (exc + bool) \<times> redis_db" where
  "redis_setnx k v db =
     (case db k of None \<Rightarrow> (Inr True, db(k \<mapsto> (v, None))) | Some e \<Rightarrow> (Inr False, db))"

definition redis_expire :: "string \<Rightarrow> int \<Rightarrow> redis_db \<Rightarrow> (exc + bool) \<times> redis_db" where
  "redis_expire k t db =
     (case db k of
        None \<Rightarrow> (Inr False, db)
      | Some e \<Rightarrow>
          if t \<le> 0 then (Inr True, db(k := None)) else (Inr True, db(k \<mapsto> (fst e, Some t))))"

definition redis_delete :: "string list \<Rightarrow> redis_db \<Rightarrow> (exc + int) \<times> redis_db" where
  "redis_delete ks db =
     (Inr (int (length (filter (\<lambda>k. db k \<noteq> None) (remdups ks)))),
      (\<lambda>k. if k \<in> set ks then None else db k))"

definition redis_server :: "redis_db redis_client" where
  "redis_server =
     \<lparr>client_get = redis_get, client_mget = redis_mget, client_set = redis_set,
      client_setex = redis_setex, client_setnx = redis_setnx, client_expire = redis_expire,
      client_delete = redis_delete\<rparr>"

text \<open>
  A stand-in for the \<^verbatim>\<open>pickle\<close> module for the concrete runs. It writes \<^verbatim>\<open>None\<close>,
  \<^verbatim>\<open>True\<close> and \<^verbatim>\<open>False\<close> in protocol 0 and refuses every other value. It reads these
  three back, as CPython's \<^verbatim>\<open>pickle.loads\<close> does, and as CPython's it raises \<^verbatim>\<open>EOFError\<close>,
  which is not a \<^verbatim>\<open>PickleError\<close>, for \<^verbatim>\<open>pickle.loads(b"")\<close>; on other input it raises
  \<^verbatim>\<open>UnpicklingError\<close>.
\<close>

definition pickle0 :: pickle where
  "pickle0 =
     \<lparr>dumps = (\<lambda>v. case v of
                  PyNone \<Rightarrow> Inr ''N.''
                | PyBool b \<Rightarrow> Inr (if b then [CHR ''I'', CHR ''0'', CHR ''1'', CHR 0x0A, CHR ''.'']
                                  else [CHR ''I'', CHR ''0'', CHR ''0'', CHR 0x0A, CHR ''.''])
                | _ \<Rightarrow> Inl PicklingError),
      loads = (\<lambda>b. if b = [] then Inl EOFError
                else if b = ''N.'' then Inr PyNone
                else if b = [CHR ''I'', CHR ''0'', CHR ''1'', CHR 0x0A, CHR ''.''] then Inr (PyBool True)
                else if b = [CHR ''I'', CHR ''0'', CHR ''0'', CHR 0x0A, CHR ''.''] then Inr (PyBool False)
                else Inl UnpicklingError)\<rparr>"

section \<open>Notions used in the statements\<close>

text \<open>
  The pickle module supports a value when it serialises the value and reads it back
  from the bytes it wrote.
\<close>

definition pickle_supports :: "pickle \<Rightarrow> pyval \<Rightarrow> bool" where
  "pickle_supports P v = (case dumps P v of Inl e \<Rightarrow> False | Inr b \<Rightarrow> loads P b = Inr v)"

text \<open>
  Where a run of digits ends: at the end of the input, or before a character that is
  neither a digit nor an underscore.
\<close>

definition sep :: "bytes \<Rightarrow> bool" where
  "sep rest = (case rest of [] \<Rightarrow> True | c # cs \<Rightarrow> \<not> is_digit c \<and> c \<noteq> CHR ''_'')"

text \<open>
  The timeouts of the spec: unspecified, \<open>0\<close> or positive, with a default timeout that is
  not negative.
\<close>

definition timeout_in_domain :: "'s RedisCache \<Rightarrow> int option \<Rightarrow> bool" where
  "timeout_in_domain self timeout \<longleftrightarrow>
     0 \<le> default_timeout self \<and> (case timeout of None \<Rightarrow> True | Some t \<Rightarrow> 0 \<le> t)"

text \<open>
  For the concrete runs: a \<^verbatim>\<open>redis\<close> module whose constructor returns the reference
  store's client, and a cache with the default timeout of 300 seconds and the key prefix
  \<^verbatim>\<open>p:\<close> on that client.
\<close>

definition redis0 :: "redis_db redis_module" where
  "redis0 h port password db kwargs = Inr redis_server"

definition cache0 :: "redis_db RedisCache" where
  "cache0 = \<lparr>default_timeout = 300, key_prefix = ''p:'', client = Some redis_server\<rparr>"

text \<open>An integer of 4301 decimal digits, one more than the limit.\<close>

definition huge_int :: int where
  "huge_int = 10 ^ 4300"

text \<open>A store whose entry at \<^verbatim>\<open>p:k\<close> is the tag byte alone: a truncated payload.\<close>

definition truncated_db :: redis_db where
  "truncated_db = [''p:k'' \<mapsto> (''!'', None)]"

section \<open>Integer text\<close>

lemma of_char_digit_char: "d < 10 \<Longrightarrow> (of_char (digit_char d) :: nat) = 48 + d"
  by (simp add: digit_char_def)

lemma is_digit_digit_char: "d < 10 \<Longrightarrow> is_digit (digit_char d)"
  by (simp add: is_digit_def of_char_digit_char)

lemma digit_value_digit_char: "d < 10 \<Longrightarrow> digit_value (digit_char d) = int d"
  by (simp add: digit_value_def of_char_digit_char)

lemma is_digit_not_special:
  "is_digit c \<Longrightarrow> c \<noteq> CHR ''_'' \<and> c \<noteq> CHR ''!'' \<and> c \<noteq> CHR ''-'' \<and> c \<noteq> CHR ''+'' \<and> \<not> is_space c"
  by (auto simp: is_digit_def is_space_def)

lemma is_space_not_special:
  "is_space c \<Longrightarrow> c \<noteq> CHR ''_'' \<and> c \<noteq> CHR ''!'' \<and> c \<noteq> CHR ''-'' \<and> c \<noteq> CHR ''+'' \<and> \<not> is_digit c"
  by (auto simp: is_digit_def is_space_def)

lemma nat_digits_all: "list_all is_digit (nat_digits n)"
proof (induction n rule: nat_digits.induct)
  case (1 n)
  then show ?case
    by (subst nat_digits.simps) (simp add: is_digit_digit_char)
qed

lemma nat_digits_nonempty: "nat_digits n \<noteq> []"
  by (subst nat_digits.simps) simp

lemma decimal_value_snoc:
  "is_digit c \<Longrightarrow> decimal_value (s @ [c]) = decimal_value s * 10 + digit_value c"
  using is_digit_not_special[of c] by (simp add: decimal_value_def)

lemma decimal_value_nat_digits: "decimal_value (nat_digits n) = int n"
proof (induction n rule: nat_digits.induct)
  case (1 n)
  show ?case
  proof (cases "n < 10")
    case True
    then have "decimal_value ([] @ [digit_char n]) = int n"
      by (subst decimal_value_snoc) (simp_all add: is_digit_digit_char digit_value_digit_char decimal_value_def)
    with True show ?thesis
      by (subst nat_digits.simps) simp
  next
    case False
    have d: "n mod 10 < 10" by simp
    from False 1 have ih: "decimal_value (nat_digits (n div 10)) = int (n div 10)" by simp
    have "decimal_value (nat_digits (n div 10) @ [digit_char (n mod 10)]) = int n"
      by (simp add: decimal_value_snoc is_digit_digit_char[OF d] digit_value_digit_char[OF d] ih zdiv_int zmod_int)
    with False show ?thesis
      by (subst nat_digits.simps) simp
  qed
qed

lemma digit_groups_hd: "digit_groups s \<Longrightarrow> s \<noteq> [] \<and> is_digit (hd s)"
  by (cases s rule: digit_groups.cases) auto

lemma digit_groups_Cons:
  assumes "is_digit c" and "digit_groups s"
  shows "digit_groups (c # s)"
proof -
  from digit_groups_hd[OF assms(2)] obtain d s' where s: "s = d # s'" and d: "is_digit d"
    by (cases s) auto
  from d have "d \<noteq> CHR ''_''" using is_digit_not_special by blast
  with assms s show ?thesis by simp
qed

lemma all_digits_groups: "list_all is_digit ds \<Longrightarrow> ds \<noteq> [] \<Longrightarrow> digit_groups ds"
proof (induction ds)
  case Nil
  then show ?case by simp
next
  case (Cons c ds)
  show ?case
  proof (cases "ds = []")
    case True
    with Cons.prems show ?thesis by simp
  next
    case False
    with Cons show ?thesis by (simp add: digit_groups_Cons)
  qed
qed

lemma not_digit_underscore: "\<not> is_digit CHR ''_''"
  by (simp add: is_digit_def)

lemma digit_count_Nil: "digit_count [] = 0"
  by (simp add: digit_count_def)

lemma digit_count_Cons:
  "digit_count (c # s) = (if is_digit c then Suc (digit_count s) else digit_count s)"
  by (simp add: digit_count_def)

lemma digit_count_all: "list_all is_digit ds \<Longrightarrow> digit_count ds = length ds"
  by (induction ds) (simp_all add: digit_count_Nil digit_count_Cons)

lemma scan_groups:
  "digit_groups body \<Longrightarrow> sep rest \<Longrightarrow>
   scan_digits pu acc k (body @ rest) =
     Some (foldl (\<lambda>a c. if c = CHR ''_'' then a else a * 10 + digit_value c) acc body, k + digit_count body, rest)"
proof (induction body arbitrary: pu acc k rule: digit_groups.induct)
  case 1
  then show ?case by simp
next
  case (2 c)
  then show ?case
    using is_digit_not_special[of c]
    by (cases rest) (auto simp: sep_def digit_count_Nil digit_count_Cons)
next
  case (3 c d s)
  then show ?case
    using is_digit_not_special[of c]
    by (auto simp: digit_count_Cons not_digit_underscore split: if_splits)
qed

lemma scan_sound:
  "scan_digits pu acc k s = Some (n, k', rest) \<Longrightarrow>
   \<exists>t. s = t @ rest \<and> sep rest \<and>
       n = foldl (\<lambda>a c. if c = CHR ''_'' then a else a * 10 + digit_value c) acc t \<and>
       k' = k + digit_count t \<and>
       (if pu then digit_groups t
        else t = [] \<or> digit_groups t \<or> (\<exists>t'. t = CHR ''_'' # t' \<and> digit_groups t'))"
proof (induction pu acc k s rule: scan_digits.induct)
  case (1 pu acc k)
  then show ?case by (auto simp: sep_def digit_count_Nil split: if_splits)
next
  case (2 pu acc k c cs)
  show ?case
  proof (cases "c = CHR ''_''")
    case True
    with 2 have pu: "\<not> pu" and sc: "scan_digits True acc k cs = Some (n, k', rest)"
      by (auto split: if_splits)
    from 2(1)[OF True pu sc] obtain t where
      t: "cs = t @ rest" "sep rest" "n = foldl (\<lambda>a c. if c = CHR ''_'' then a else a * 10 + digit_value c) acc t" "digit_groups t"
      and k: "k' = k + digit_count t"
      by auto
    show ?thesis
      apply (rule exI[of _ "c # t"])
      using t k True pu by (simp add: digit_count_Cons not_digit_underscore)
  next
    case False
    show ?thesis
    proof (cases "is_digit c")
      case True
      with False 2 have sc:
        "scan_digits False (acc * 10 + digit_value c) (Suc k) cs = Some (n, k', rest)"
        by simp
      from 2(2)[OF False True sc] obtain t where
        t: "cs = t @ rest" "sep rest" "n = foldl (\<lambda>a c. if c = CHR ''_'' then a else a * 10 + digit_value c) (acc * 10 + digit_value c) t"
        "t = [] \<or> digit_groups t \<or> (\<exists>t'. t = CHR ''_'' # t' \<and> digit_groups t')"
        and k: "k' = Suc k + digit_count t"
        by auto
      have dg: "digit_groups (c # t)"
        using t(4) True by (auto simp: digit_groups_Cons)
      show ?thesis
        apply (rule exI[of _ "c # t"])
        using t k False True dg by (simp add: digit_count_Cons)
    next
      case nd: False
      with False 2 have "\<not> pu" "n = acc" "k' = k" "rest = c # cs" by (auto split: if_splits)
      then show ?thesis using False nd by (auto simp: sep_def digit_count_Nil)
    qed
  qed
qed

lemma dropWhile_space_all: "list_all is_space ws \<Longrightarrow> dropWhile is_space ws = []"
  by (induction ws) auto

lemma dropWhile_space_prefix:
  "list_all is_space ws \<Longrightarrow> s \<noteq> [] \<Longrightarrow> \<not> is_space (hd s) \<Longrightarrow> dropWhile is_space (ws @ s) = s"
  by (induction ws) (auto, cases s, auto)

lemma int_of_bytes_literal:
  assumes ws1: "list_all is_space ws1" and ws2: "list_all is_space ws2"
    and sg: "sg = [] \<or> sg = ''+'' \<or> sg = ''-''" and body: "digit_groups body"
  shows "int_of_bytes (ws1 @ sg @ body @ ws2) =
           (if max_str_digits < digit_count body then Inl ValueError
            else Inr (sign_value sg * decimal_value body))"
proof -
  from digit_groups_hd[OF body] obtain c cs where b: "body = c # cs" "is_digit c"
    by (cases body) auto
  have ns: "sg @ body @ ws2 \<noteq> []" "\<not> is_space (hd (sg @ body @ ws2))"
    using sg b is_digit_not_special[of c] by (auto simp: is_space_def)
  have d1: "dropWhile is_space (ws1 @ sg @ body @ ws2) = sg @ body @ ws2"
    by (rule dropWhile_space_prefix[OF ws1 ns])
  have ps: "parse_sign (sg @ body @ ws2) = (sign_value sg, body @ ws2)"
    using sg b is_digit_not_special[of c] by (auto simp: sign_value_def)
  have sp: "sep ws2"
    using ws2 is_space_not_special by (cases ws2) (auto simp: sep_def)
  have sc: "scan_digits False 0 0 (body @ ws2) = Some (decimal_value body, digit_count body, ws2)"
    using scan_groups[OF body sp, of False 0 0] by (simp add: decimal_value_def)
  show ?thesis
    unfolding int_of_bytes_def d1 ps
    using b sc dropWhile_space_all[OF ws2] by simp
qed

lemma parse_sign_cases:
  "parse_sign s = (sign, r) \<Longrightarrow> \<exists>sg. s = sg @ r \<and> (sg = [] \<or> sg = ''+'' \<or> sg = ''-'') \<and> sign = sign_value sg"
proof (cases s)
  case Nil
  assume "parse_sign s = (sign, r)"
  with Nil have "s = [] @ r \<and> sign = sign_value []" by (simp add: sign_value_def)
  then show ?thesis by blast
next
  case (Cons c cs)
  assume ps: "parse_sign s = (sign, r)"
  consider "c = CHR ''+''" | "c = CHR ''-''" | "c \<noteq> CHR ''+''" "c \<noteq> CHR ''-''" by blast
  then show ?thesis
  proof cases
    case 1
    with ps Cons have "s = ''+'' @ r \<and> sign = sign_value ''+''" by (simp add: sign_value_def)
    then show ?thesis by blast
  next
    case 2
    with ps Cons have "s = ''-'' @ r \<and> sign = sign_value ''-''" by (simp add: sign_value_def)
    then show ?thesis by blast
  next
    case 3
    with ps Cons have "s = [] @ r \<and> sign = sign_value []" by (simp add: sign_value_def)
    then show ?thesis by blast
  qed
qed

lemma dropWhile_nil_all: "dropWhile is_space rest = [] \<Longrightarrow> list_all is_space rest"
  by (induction rest) (auto split: if_splits)

lemma int_of_bytes_Inr:
  assumes "int_of_bytes b = Inr n"
  shows "\<exists>ws1 sg body ws2. b = ws1 @ sg @ body @ ws2 \<and> list_all is_space ws1 \<and>
        list_all is_space ws2 \<and> (sg = [] \<or> sg = ''+'' \<or> sg = ''-'') \<and> digit_groups body \<and>
        digit_count body \<le> max_str_digits \<and> n = sign_value sg * decimal_value body"
proof -
  obtain sign s where ps: "parse_sign (dropWhile is_space b) = (sign, s)"
    by (cases "parse_sign (dropWhile is_space b)")
  from assms ps obtain c cs where s: "s = c # cs" "is_digit c"
    by (cases s) (auto simp: int_of_bytes_def split: if_splits)
  from assms ps s obtain m k rest where sc: "scan_digits False 0 0 s = Some (m, k, rest)"
    and dr: "dropWhile is_space rest = []" and n: "n = sign * m" and lim: "k \<le> max_str_digits"
    by (auto simp: int_of_bytes_def split: if_splits option.splits)
  from scan_sound[OF sc] obtain t where t: "s = t @ rest" "sep rest" "m = decimal_value t"
    "t = [] \<or> digit_groups t \<or> (\<exists>t'. t = CHR ''_'' # t' \<and> digit_groups t')"
    and k: "k = digit_count t"
    by (auto simp: decimal_value_def)
  have dg: "digit_groups t"
    using t s is_digit_not_special[of c] by (auto simp: sep_def)
  from parse_sign_cases[OF ps] obtain sg where sg: "dropWhile is_space b = sg @ s"
    "sg = [] \<or> sg = ''+'' \<or> sg = ''-''" "sign = sign_value sg" by auto
  have "b = takeWhile is_space b @ sg @ t @ rest"
    using sg(1) t(1) takeWhile_dropWhile_id[of is_space b] by simp
  moreover have "list_all is_space (takeWhile is_space b)"
    by (simp add: list_all_iff) (meson set_takeWhileD)
  ultimately have "b = takeWhile is_space b @ sg @ t @ rest \<and> list_all is_space (takeWhile is_space b) \<and>
        list_all is_space rest \<and> (sg = [] \<or> sg = ''+'' \<or> sg = ''-'') \<and> digit_groups t \<and>
        digit_count t \<le> max_str_digits \<and> n = sign_value sg * decimal_value t"
    using sg dg dropWhile_nil_all[OF dr] n t(3) k lim by simp
  then show ?thesis by (intro exI)
qed

lemma int_of_bytes_Inl: "int_of_bytes b = Inl e \<Longrightarrow> e = ValueError"
  unfolding int_of_bytes_def
  by (simp split: prod.splits list.splits if_splits option.splits)

lemma int_literal_iff: "int_literal b \<longleftrightarrow> (\<exists>n. int_of_bytes b = Inr n)"
proof
  assume "int_literal b"
  then obtain ws1 sg body ws2 where "b = ws1 @ sg @ body @ ws2" "list_all is_space ws1"
    "list_all is_space ws2" "sg = [] \<or> sg = ''+'' \<or> sg = ''-''" "digit_groups body"
    "digit_count body \<le> max_str_digits"
    unfolding int_literal_def by blast
  then show "\<exists>n. int_of_bytes b = Inr n"
    using int_of_bytes_literal by simp
next
  assume "\<exists>n. int_of_bytes b = Inr n"
  then obtain n where "int_of_bytes b = Inr n" ..
  from int_of_bytes_Inr[OF this] show "int_literal b"
    unfolding int_literal_def by blast
qed

lemma digit_count_minus: "digit_count (CHR ''-'' # cs) = digit_count cs"
  by (simp add: digit_count_Cons is_digit_def)

lemma plain_decimal_int_of_bytes:
  assumes "plain_decimal b"
  shows "int_of_bytes b =
           (if max_str_digits < digit_count b then Inl ValueError else Inr (plain_value b))"
proof (cases b)
  case Nil
  with assms show ?thesis by (simp add: plain_decimal_def)
next
  case (Cons c cs)
  show ?thesis
  proof (cases "c = CHR ''-''")
    case True
    with assms Cons have "digit_groups cs"
      by (simp add: plain_decimal_def all_digits_groups)
    from int_of_bytes_literal[of "[]" "[]" "''-''", OF _ _ _ this]
    show ?thesis
      using True Cons by (simp add: plain_value_def sign_value_def digit_count_minus)
  next
    case False
    with assms Cons have "digit_groups b"
      by (simp add: plain_decimal_def all_digits_groups)
    from int_of_bytes_literal[of "[]" "[]" "[]", OF _ _ _ this]
    show ?thesis using False Cons by (simp add: plain_value_def sign_value_def)
  qed
qed

lemma plain_decimal_untagged: "plain_decimal b \<Longrightarrow> \<not> startswith b ''!''"
  using is_digit_not_special
  by (cases b) (auto simp: plain_decimal_def startswith_def split: if_splits)

lemma plain_decimal_digits:
  assumes "list_all is_digit ds" and "ds \<noteq> []"
  shows "plain_decimal ds" and "plain_decimal (CHR ''-'' # ds)"
proof -
  from assms obtain c cs where ds: "ds = c # cs" and c: "is_digit c"
    by (cases ds) auto
  from c have "c \<noteq> CHR ''-''" using is_digit_not_special by blast
  with assms ds show "plain_decimal ds" by (simp add: plain_decimal_def)
  from assms show "plain_decimal (CHR ''-'' # ds)" by (simp add: plain_decimal_def)
qed

lemma str_int_cases:
  "str_int n = (if max_str_digits < int_digits n then Inl ValueError else Inr (int_text n))"
  by (simp add: str_int_def int_digits_def int_text_def)

lemma plain_decimal_int_text: "plain_decimal (int_text n)"
  using plain_decimal_digits[OF nat_digits_all nat_digits_nonempty]
  by (simp add: int_text_def)

lemma plain_value_int_text: "plain_value (int_text n) = n"
proof (cases "n < 0")
  case True
  then show ?thesis by (simp add: int_text_def plain_value_def decimal_value_nat_digits)
next
  case False
  obtain c cs where nd: "nat_digits (nat n) = c # cs"
    using nat_digits_nonempty by (cases "nat_digits (nat n)") auto
  have "is_digit c" using nat_digits_all[of "nat n"] nd by simp
  then have "c \<noteq> CHR ''-''" using is_digit_not_special by blast
  then show ?thesis
    using False nd decimal_value_nat_digits[of "nat n"] by (simp add: int_text_def plain_value_def)
qed

lemma digit_count_int_text: "digit_count (int_text n) = int_digits n"
proof (cases "n < 0")
  case True
  then have "nat (- n) = nat \<bar>n\<bar>" by simp
  with True show ?thesis
    by (simp add: int_text_def int_digits_def digit_count_minus digit_count_all nat_digits_all)
next
  case False
  then have "nat n = nat \<bar>n\<bar>" by simp
  with False show ?thesis
    by (simp add: int_text_def int_digits_def digit_count_all nat_digits_all)
qed

lemma length_nat_digits_power: "length (nat_digits (10 ^ k)) = Suc k"
proof (induction k)
  case 0
  show ?case by (subst nat_digits.simps) simp
next
  case (Suc k)
  have "\<not> (10::nat) * 10 ^ k < 10" by simp
  then have "nat_digits (10 * 10 ^ k) = nat_digits (10 ^ k) @ [digit_char ((10 * 10 ^ k) mod 10)]"
    by (subst nat_digits.simps) simp
  with Suc show ?case by simp
qed

lemma int_digits_power: "int_digits (10 ^ k) = Suc k" "int_digits (- (10 ^ k)) = Suc k"
proof -
  have "nat \<bar>10 ^ k :: int\<bar> = 10 ^ k" by (simp add: nat_power_eq)
  then show "int_digits (10 ^ k) = Suc k"
    by (simp only: int_digits_def length_nat_digits_power)
  have "nat \<bar>- (10 ^ k) :: int\<bar> = 10 ^ k" by (simp add: nat_power_eq)
  then show "int_digits (- (10 ^ k)) = Suc k"
    by (simp only: int_digits_def length_nat_digits_power)
qed

section \<open>The codec: what is written and what is read back\<close>

lemma load_object_plain:
  "plain_decimal b \<Longrightarrow> digit_count b \<le> max_str_digits \<Longrightarrow>
   load_object P (Some b) = Inr (PyInt (plain_value b))"
  by (simp add: load_object_def plain_decimal_untagged plain_decimal_int_of_bytes)

lemma load_object_plain_long:
  "plain_decimal b \<Longrightarrow> max_str_digits < digit_count b \<Longrightarrow>
   load_object P (Some b) = Inr (PyBytes b)"
  by (simp add: load_object_def plain_decimal_untagged plain_decimal_int_of_bytes)

lemma load_object_tagged:
  "load_object P (Some (CHR ''!'' # b)) =
     (case loads P b of Inr v \<Rightarrow> Inr v | Inl e \<Rightarrow> if is_PickleError e then Inr PyNone else Inl e)"
  by (simp add: load_object_def startswith_def)

lemma dump_object_int: "dump_object P (PyInt n) = str_int n"
  by (simp add: dump_object_def)

lemma dump_object_other:
  "\<not> type_is_int v \<Longrightarrow>
   dump_object P v = (case dumps P v of Inl e \<Rightarrow> Inl e | Inr b \<Rightarrow> Inr (''!'' @ b))"
  by (cases v) (simp_all add: dump_object_def)

lemma load_int_text:
  "int_digits n \<le> max_str_digits \<Longrightarrow> load_object P (Some (int_text n)) = Inr (PyInt n)"
  using load_object_plain[OF plain_decimal_int_text, of n P]
  by (simp add: plain_value_int_text digit_count_int_text)

lemma str_int_42: "str_int 42 = Inr ''42''"
  by code_simp

lemma not_literal_abc: "\<not> int_literal ''abc''"
proof -
  have "int_of_bytes ''abc'' = Inl ValueError" by code_simp
  then show ?thesis by (simp add: int_literal_iff)
qed

lemma huge_int_digits:
  "max_str_digits < int_digits huge_int" "max_str_digits < int_digits (- huge_int)"
proof -
  have l: "max_str_digits < Suc 4300" by (simp add: max_str_digits_def)
  then show "max_str_digits < int_digits huge_int"
    by (simp only: huge_int_def int_digits_power)
  from l show "max_str_digits < int_digits (- huge_int)"
    by (simp only: huge_int_def int_digits_power)
qed

text \<open>A run of zeros one longer than the limit: plain decimal text with too many digits.\<close>

lemma zeros_plain:
  "plain_decimal (replicate (Suc k) CHR ''0'')"
  "digit_count (replicate (Suc k) CHR ''0'') = Suc k"
  "\<not> startswith (replicate (Suc k) CHR ''0'') ''!''"
proof -
  have d: "is_digit CHR ''0''" by (simp add: is_digit_def)
  then have a: "list_all is_digit (replicate (Suc k) CHR ''0'')"
    by (simp add: list_all_iff)
  from plain_decimal_digits(1)[OF a] show p: "plain_decimal (replicate (Suc k) CHR ''0'')"
    by simp
  from digit_count_all[OF a] show "digit_count (replicate (Suc k) CHR ''0'') = Suc k"
    by simp
  from p show "\<not> startswith (replicate (Suc k) CHR ''0'') ''!''"
    by (rule plain_decimal_untagged)
qed

text \<open>
  Claim C1, as stated, says that every integer is read back from what \<^verbatim>\<open>dump_object\<close>
  writes. It fails for an integer of more than 4300 digits: \<^verbatim>\<open>str(value)\<close> raises
  \<^verbatim>\<open>ValueError\<close>, so \<^verbatim>\<open>dump_object(10 ** 4300)\<close> writes nothing.
\<close>

theorem codec_round_trip_counterexample:
  "dump_object pickle0 (PyInt huge_int) = Inl ValueError"
  using huge_int_digits(1) by (simp add: dump_object_int str_int_cases)

text \<open>
  Claim C1, amended (round trip). For every value whose runtime type is exactly \<^verbatim>\<open>int\<close>
  and that has at most 4300 decimal digits, and for every value of another type that the
  pickle module supports, \<^verbatim>\<open>dump_object\<close> returns bytes and \<^verbatim>\<open>load_object\<close> returns the
  value from them. For an integer of more digits \<^verbatim>\<open>dump_object\<close> raises \<^verbatim>\<open>ValueError\<close>.
\<close>

theorem codec_round_trip:
  "((\<exists>n. v = PyInt n \<and> int_digits n \<le> max_str_digits) \<or>
    (\<not> type_is_int v \<and> pickle_supports P v) \<longrightarrow>
      (\<exists>b. dump_object P v = Inr b \<and> load_object P (Some b) = Inr v)) \<and>
   (max_str_digits < int_digits n \<longrightarrow> dump_object P (PyInt n) = Inl ValueError)"
proof (intro conjI impI)
  assume h: "(\<exists>n. v = PyInt n \<and> int_digits n \<le> max_str_digits) \<or>
    (\<not> type_is_int v \<and> pickle_supports P v)"
  show "\<exists>b. dump_object P v = Inr b \<and> load_object P (Some b) = Inr v"
  proof (cases "type_is_int v")
    case True
    with h obtain m where v: "v = PyInt m" and m: "int_digits m \<le> max_str_digits" by auto
    from m have "dump_object P (PyInt m) = Inr (int_text m)"
      by (simp add: dump_object_int str_int_cases)
    with v m show ?thesis by (simp add: load_int_text)
  next
    case False
    with h have "pickle_supports P v" by auto
    then obtain b where b: "dumps P v = Inr b" "loads P b = Inr v"
      by (auto simp: pickle_supports_def split: sum.splits)
    have "dump_object P v = Inr (CHR ''!'' # b)"
      using dump_object_other[OF False, of P] b by simp
    moreover have "load_object P (Some (CHR ''!'' # b)) = Inr v"
      using b by (simp add: load_object_tagged)
    ultimately show ?thesis by blast
  qed
next
  assume "max_str_digits < int_digits n"
  then show "dump_object P (PyInt n) = Inl ValueError"
    by (simp add: dump_object_int str_int_cases)
qed

text \<open>The round trip at \<open>-120\<close>, and at \<^verbatim>\<open>True\<close> through the pickle stand-in.\<close>

theorem codec_round_trip_witness:
  "int_digits (- 120) \<le> max_str_digits \<and>
   (\<exists>b. dump_object pickle0 (PyInt (- 120)) = Inr b \<and>
        load_object pickle0 (Some b) = Inr (PyInt (- 120))) \<and>
   \<not> type_is_int (PyBool True) \<and> pickle_supports pickle0 (PyBool True) \<and>
   (\<exists>b. dump_object pickle0 (PyBool True) = Inr b \<and>
        load_object pickle0 (Some b) = Inr (PyBool True)) \<and>
   max_str_digits < int_digits huge_int \<and>
   dump_object pickle0 (PyInt huge_int) = Inl ValueError"
proof -
  have d: "int_digits (- 120) \<le> max_str_digits" by code_simp
  have s: "pickle_supports pickle0 (PyBool True)"
    by (simp add: pickle_supports_def pickle0_def)
  have l: "max_str_digits < int_digits huge_int" by (rule huge_int_digits)
  have h1: "(\<exists>n. PyInt (- 120) = PyInt n \<and> int_digits n \<le> max_str_digits) \<or>
    (\<not> type_is_int (PyInt (- 120)) \<and> pickle_supports pickle0 (PyInt (- 120)))"
    using d by blast
  have h2: "(\<exists>n. PyBool True = PyInt n \<and> int_digits n \<le> max_str_digits) \<or>
    (\<not> type_is_int (PyBool True) \<and> pickle_supports pickle0 (PyBool True))"
    using s by simp
  from codec_round_trip[of "PyInt (- 120)" pickle0 huge_int] h1 l
  have r1: "(\<exists>b. dump_object pickle0 (PyInt (- 120)) = Inr b \<and>
        load_object pickle0 (Some b) = Inr (PyInt (- 120))) \<and>
     dump_object pickle0 (PyInt huge_int) = Inl ValueError"
    by blast
  from codec_round_trip[of "PyBool True" pickle0 huge_int] h2
  have r2: "\<exists>b. dump_object pickle0 (PyBool True) = Inr b \<and>
        load_object pickle0 (Some b) = Inr (PyBool True)"
    by blast
  from d s l r1 r2 show ?thesis by simp
qed

text \<open>
  Claim C10, as stated, says that every value of type exactly \<^verbatim>\<open>int\<close> is written as plain
  decimal text. It fails for an integer of more than 4300 digits, for which
  \<^verbatim>\<open>dump_object\<close> writes nothing and raises \<^verbatim>\<open>ValueError\<close>.
\<close>

theorem wire_shapes_disjoint_counterexample:
  "type_is_int (PyInt (- huge_int)) \<and>
   dump_object pickle0 (PyInt (- huge_int)) = Inl ValueError"
  using huge_int_digits(2) by (simp add: dump_object_int str_int_cases)

text \<open>
  Claim C10, amended (the two wire shapes do not meet). A value of type exactly \<^verbatim>\<open>int\<close>
  with at most 4300 decimal digits is written as plain decimal text, which never begins
  with the tag byte. Whatever \<^verbatim>\<open>dump_object\<close> returns is plain decimal text exactly when
  the type of the value is exactly \<^verbatim>\<open>int\<close>, and begins with the tag byte exactly when it is
  not; a boolean is written through pickle, behind the tag byte.
\<close>

theorem wire_shapes_disjoint:
  "(int_digits n \<le> max_str_digits \<longrightarrow>
      (\<exists>b. dump_object P (PyInt n) = Inr b \<and> plain_decimal b \<and> \<not> startswith b ''!'')) \<and>
   (\<forall>b. dump_object P v = Inr b \<longrightarrow>
      (plain_decimal b \<longleftrightarrow> type_is_int v) \<and> (startswith b ''!'' \<longleftrightarrow> \<not> type_is_int v)) \<and>
   dump_object P (PyBool t) =
      (case dumps P (PyBool t) of Inl e \<Rightarrow> Inl e | Inr b \<Rightarrow> Inr (''!'' @ b))"
proof (intro conjI impI allI)
  assume "int_digits n \<le> max_str_digits"
  then have "dump_object P (PyInt n) = Inr (int_text n)"
    by (simp add: dump_object_int str_int_cases)
  then show "\<exists>b. dump_object P (PyInt n) = Inr b \<and> plain_decimal b \<and> \<not> startswith b ''!''"
    using plain_decimal_int_text plain_decimal_untagged by simp
next
  fix b
  assume d: "dump_object P v = Inr b"
  have shape: "if type_is_int v then plain_decimal b \<and> \<not> startswith b ''!''
               else startswith b ''!'' \<and> \<not> plain_decimal b"
  proof (cases "type_is_int v")
    case True
    then obtain m where "v = PyInt m" by (cases v) auto
    with d have "b = int_text m"
      by (simp add: dump_object_int str_int_cases split: if_splits)
    with True show ?thesis
      using plain_decimal_int_text plain_decimal_untagged by simp
  next
    case False
    from d dump_object_other[OF False, of P] obtain b' where "b = CHR ''!'' # b'"
      by (auto split: sum.splits)
    then have "startswith b ''!''" by (simp add: startswith_def)
    with False show ?thesis using plain_decimal_untagged by auto
  qed
  from shape show "plain_decimal b \<longleftrightarrow> type_is_int v" by (auto split: if_splits)
  from shape show "startswith b ''!'' \<longleftrightarrow> \<not> type_is_int v" by (auto split: if_splits)
next
  show "dump_object P (PyBool t) =
      (case dumps P (PyBool t) of Inl e \<Rightarrow> Inl e | Inr b \<Rightarrow> Inr (''!'' @ b))"
    by (simp add: dump_object_def)
qed

text \<open>The two shapes at \<open>42\<close> and at \<^verbatim>\<open>True\<close>.\<close>

theorem wire_shapes_disjoint_witness:
  "int_digits 42 \<le> max_str_digits \<and> dump_object pickle0 (PyInt 42) = Inr ''42'' \<and>
   plain_decimal ''42'' \<and> \<not> startswith ''42'' ''!'' \<and> type_is_int (PyInt 42) \<and>
   \<not> type_is_int (PyBool True) \<and>
   dump_object pickle0 (PyBool True) =
     Inr [CHR ''!'', CHR ''I'', CHR ''0'', CHR ''1'', CHR 0x0A, CHR ''.''] \<and>
   startswith [CHR ''!'', CHR ''I'', CHR ''0'', CHR ''1'', CHR 0x0A, CHR ''.''] ''!'' \<and>
   \<not> plain_decimal [CHR ''!'', CHR ''I'', CHR ''0'', CHR ''1'', CHR 0x0A, CHR ''.'']"
proof -
  have l: "int_digits 42 \<le> max_str_digits" by code_simp
  have d1: "dump_object pickle0 (PyInt 42) = Inr ''42''"
    by (simp add: dump_object_int str_int_42)
  have d2: "dump_object pickle0 (PyBool True) =
      Inr [CHR ''!'', CHR ''I'', CHR ''0'', CHR ''1'', CHR 0x0A, CHR ''.'']"
    by (simp add: dump_object_def pickle0_def)
  show ?thesis
    using wire_shapes_disjoint[of 42 pickle0 "PyInt 42" True]
      wire_shapes_disjoint[of 42 pickle0 "PyBool True" True] l d1 d2
    by simp
qed

text \<open>
  When \<^verbatim>\<open>load_object\<close> raises: it returns \<^verbatim>\<open>None\<close> for \<^verbatim>\<open>None\<close>, and a value for every
  payload without the tag byte, where \<^verbatim>\<open>ValueError\<close> is caught; for a tagged payload it
  returns \<^verbatim>\<open>None\<close> when the unpickler raises a \<^verbatim>\<open>PickleError\<close>, and lets every other
  exception of the unpickler through.
\<close>

lemma load_object_raises_iff:
  "load_object P None = Inr PyNone \<and>
   (\<not> startswith b ''!'' \<longrightarrow> (\<exists>v. load_object P (Some b) = Inr v)) \<and>
   (startswith b ''!'' \<and> (\<exists>e. loads P (drop 1 b) = Inl e \<and> is_PickleError e) \<longrightarrow>
      load_object P (Some b) = Inr PyNone) \<and>
   (load_object P value = Inl e \<longleftrightarrow>
      (\<exists>b'. value = Some b' \<and> startswith b' ''!'' \<and> loads P (drop 1 b') = Inl e \<and>
            \<not> is_PickleError e))"
proof (intro conjI impI)
  show "load_object P None = Inr PyNone" by (simp add: load_object_def)
next
  assume "\<not> startswith b ''!''"
  then show "\<exists>v. load_object P (Some b) = Inr v"
    using int_of_bytes_Inl[of b]
    by (cases "int_of_bytes b") (auto simp: load_object_def)
next
  assume "startswith b ''!'' \<and> (\<exists>e. loads P (drop 1 b) = Inl e \<and> is_PickleError e)"
  then show "load_object P (Some b) = Inr PyNone"
    by (auto simp: load_object_def)
next
  show "load_object P value = Inl e \<longleftrightarrow>
      (\<exists>b'. value = Some b' \<and> startswith b' ''!'' \<and> loads P (drop 1 b') = Inl e \<and>
            \<not> is_PickleError e)"
  proof (cases "value")
    case None
    then show ?thesis by (simp add: load_object_def)
  next
    case (Some b')
    show ?thesis
    proof (cases "startswith b' ''!''")
      case True
      with Some show ?thesis
        by (cases "loads P (drop 1 b')") (auto simp: load_object_def)
    next
      case False
      with Some show ?thesis
        using int_of_bytes_Inl[of b']
        by (cases "int_of_bytes b'") (auto simp: load_object_def)
    qed
  qed
qed

text \<open>
  Claim C2 says that \<^verbatim>\<open>load_object\<close> never raises, and that a malformed tagged payload
  gives \<^verbatim>\<open>None\<close>. The code does not do so on the truncated payload \<^verbatim>\<open>b"!"\<close>:
  \<^verbatim>\<open>pickle.loads(b"")\<close> raises \<^verbatim>\<open>EOFError\<close>, which the handler for \<^verbatim>\<open>pickle.PickleError\<close>
  does not catch, and \<^verbatim>\<open>load_object\<close> raises it.
\<close>

theorem load_object_truncated_raises:
  "load_object pickle0 (Some ''!'') = Inl EOFError"
  by (simp add: load_object_def startswith_def pickle0_def)

text \<open>
  Claim C7, as stated, says that a payload without the tag byte is read as an integer only
  if it is decimal digits after an optional \<^verbatim>\<open>-\<close>, and is returned unchanged otherwise.
  It fails: \<^verbatim>\<open>int(b"+5")\<close> is \<open>5\<close>.
\<close>

theorem load_object_legacy_counterexample:
  "\<not> startswith ''+5'' ''!'' \<and> \<not> plain_decimal ''+5'' \<and>
   load_object pickle0 (Some ''+5'') = Inr (PyInt 5)"
  by code_simp

text \<open>
  Claim C7, amended. For every payload without the tag byte: decimal digits after an
  optional \<^verbatim>\<open>-\<close> are read as the integer they spell when there are at most 4300 digits;
  so is every other spelling that \<^verbatim>\<open>int()\<close> accepts (white space around, a sign \<^verbatim>\<open>+\<close> or
  \<^verbatim>\<open>-\<close>, single underscores between digits) with at most 4300 digits; a spelling with
  more digits is returned unchanged as bytes, and so is a payload that is no such
  literal.
\<close>

theorem load_object_legacy:
  assumes "\<not> startswith b ''!''"
  shows "(plain_decimal b \<longrightarrow>
            load_object P (Some b) =
              (if max_str_digits < digit_count b then Inr (PyBytes b)
               else Inr (PyInt (plain_value b)))) \<and>
         (\<forall>ws1 sg body ws2.
            b = ws1 @ sg @ body @ ws2 \<and> list_all is_space ws1 \<and> list_all is_space ws2 \<and>
            (sg = [] \<or> sg = ''+'' \<or> sg = ''-'') \<and> digit_groups body \<longrightarrow>
            load_object P (Some b) =
              (if max_str_digits < digit_count body then Inr (PyBytes b)
               else Inr (PyInt (sign_value sg * decimal_value body)))) \<and>
         (\<not> int_literal b \<longrightarrow> load_object P (Some b) = Inr (PyBytes b))"
proof (intro conjI impI allI)
  assume "plain_decimal b"
  then show "load_object P (Some b) =
      (if max_str_digits < digit_count b then Inr (PyBytes b) else Inr (PyInt (plain_value b)))"
    using load_object_plain[of b P] load_object_plain_long[of b P] by simp
next
  fix ws1 sg body ws2
  assume "b = ws1 @ sg @ body @ ws2 \<and> list_all is_space ws1 \<and> list_all is_space ws2 \<and>
            (sg = [] \<or> sg = ''+'' \<or> sg = ''-'') \<and> digit_groups body"
  then have "int_of_bytes b =
      (if max_str_digits < digit_count body then Inl ValueError
       else Inr (sign_value sg * decimal_value body))"
    using int_of_bytes_literal by blast
  with assms show "load_object P (Some b) =
      (if max_str_digits < digit_count body then Inr (PyBytes b)
       else Inr (PyInt (sign_value sg * decimal_value body)))"
    by (simp add: load_object_def)
next
  assume "\<not> int_literal b"
  then have "\<forall>n. int_of_bytes b \<noteq> Inr n" by (simp add: int_literal_iff)
  then obtain e where "int_of_bytes b = Inl e" by (cases "int_of_bytes b") auto
  with int_of_bytes_Inl[of b e] assms show "load_object P (Some b) = Inr (PyBytes b)"
    by (simp add: load_object_def)
qed

text \<open>
  The cases at \<^verbatim>\<open>b"-12"\<close>, \<^verbatim>\<open>b" +1_000"\<close>, \<^verbatim>\<open>b"abc"\<close> and at 4301 zeros.
\<close>

theorem load_object_legacy_witness:
  "\<not> startswith ''-12'' ''!'' \<and> plain_decimal ''-12'' \<and>
   load_object pickle0 (Some ''-12'') = Inr (PyInt (- 12)) \<and>
   \<not> startswith '' +1_000'' ''!'' \<and>
   load_object pickle0 (Some '' +1_000'') = Inr (PyInt 1000) \<and>
   \<not> startswith ''abc'' ''!'' \<and> \<not> int_literal ''abc'' \<and>
   load_object pickle0 (Some ''abc'') = Inr (PyBytes ''abc'') \<and>
   \<not> startswith (replicate (Suc max_str_digits) CHR ''0'') ''!'' \<and>
   plain_decimal (replicate (Suc max_str_digits) CHR ''0'') \<and>
   load_object pickle0 (Some (replicate (Suc max_str_digits) CHR ''0'')) =
     Inr (PyBytes (replicate (Suc max_str_digits) CHR ''0''))"
proof -
  have u1: "\<not> startswith ''-12'' ''!''" by (simp add: startswith_def)
  have u2: "\<not> startswith '' +1_000'' ''!''" by (simp add: startswith_def)
  have u3: "\<not> startswith ''abc'' ''!''" by (simp add: startswith_def)
  have p1: "plain_decimal ''-12''" by code_simp
  have c1: "\<not> max_str_digits < digit_count ''-12''" by code_simp
  have v1: "plain_value ''-12'' = - 12" by code_simp
  have g: "'' +1_000'' = '' '' @ ''+'' @ ''1_000'' @ [] \<and> list_all is_space '' '' \<and>
      list_all is_space [] \<and> (''+'' = [] \<or> ''+'' = ''+'' \<or> ''+'' = ''-'') \<and> digit_groups ''1_000''"
    by code_simp
  have c2: "\<not> max_str_digits < digit_count ''1_000''" by code_simp
  have v2: "sign_value ''+'' * decimal_value ''1_000'' = 1000" by code_simp
  from load_object_legacy[OF u1, of pickle0] p1 c1 v1
  have r1: "load_object pickle0 (Some ''-12'') = Inr (PyInt (- 12))" by simp
  from load_object_legacy[OF u2, of pickle0] g
  have "load_object pickle0 (Some '' +1_000'') =
      (if max_str_digits < digit_count ''1_000'' then Inr (PyBytes '' +1_000'')
       else Inr (PyInt (sign_value ''+'' * decimal_value ''1_000'')))"
    by blast
  with c2 v2 have r2: "load_object pickle0 (Some '' +1_000'') = Inr (PyInt 1000)" by simp
  from load_object_legacy[OF u3, of pickle0] not_literal_abc
  have r3: "load_object pickle0 (Some ''abc'') = Inr (PyBytes ''abc'')" by simp
  note z = zeros_plain[of max_str_digits]
  from load_object_legacy[OF z(3), of pickle0] z(1) z(2)
  have r4: "load_object pickle0 (Some (replicate (Suc max_str_digits) CHR ''0'')) =
     Inr (PyBytes (replicate (Suc max_str_digits) CHR ''0''))"
    by simp
  show ?thesis using u1 u2 u3 p1 not_literal_abc r1 r2 r3 r4 z(1) z(3) by simp
qed

section \<open>The backend operations\<close>

lemma prefixed_map: "prefixed self keys = map (\<lambda>key. key_prefix self @ key) keys"
  by (simp add: prefixed_def)

lemma load_objects_Inr:
  "load_objects P xs = Inr vs \<Longrightarrow>
   length vs = length xs \<and> (\<forall>i < length xs. load_object P (xs ! i) = Inr (vs ! i))"
proof (induction xs arbitrary: vs)
  case Nil
  then show ?case by simp
next
  case (Cons x xs)
  from Cons.prems obtain v vs' where v: "load_object P x = Inr v"
    and vs': "load_objects P xs = Inr vs'" and vs: "vs = v # vs'"
    by (auto split: sum.splits)
  from Cons.IH[OF vs'] have ih: "length vs' = length xs"
    "\<forall>i < length xs. load_object P (xs ! i) = Inr (vs' ! i)" by auto
  show ?case
  proof (intro conjI allI impI)
    show "length vs = length (x # xs)" using ih vs by simp
  next
    fix i assume "i < length (x # xs)"
    then show "load_object P ((x # xs) ! i) = Inr (vs ! i)"
      using v vs ih by (cases i) auto
  qed
qed

lemma load_objects_returns_iff:
  "(\<exists>vs. load_objects P xs = Inr vs) \<longleftrightarrow> (\<forall>x \<in> set xs. \<exists>v. load_object P x = Inr v)"
proof (induction xs)
  case Nil
  then show ?case by simp
next
  case (Cons x xs)
  show ?case
  proof (cases "load_object P x")
    case (Inl e)
    then show ?thesis by auto
  next
    case (Inr v)
    with Cons show ?thesis
      by (cases "load_objects P xs") auto
  qed
qed

lemma count_present:
  "length (filter (\<lambda>k. s k \<noteq> None) (remdups ks)) = card (set ks \<inter> dom s)"
proof -
  have "distinct (filter (\<lambda>k. s k \<noteq> None) (remdups ks))"
    by (rule distinct_filter) (rule distinct_remdups)
  then have "length (filter (\<lambda>k. s k \<noteq> None) (remdups ks)) =
        card (set (filter (\<lambda>k. s k \<noteq> None) (remdups ks)))"
    by (rule distinct_card[symmetric])
  also have "set (filter (\<lambda>k. s k \<noteq> None) (remdups ks)) = set ks \<inter> dom s"
    by (auto simp: dom_def)
  finally show ?thesis .
qed

text \<open>
  Claim C3 (timeout normalization). \<^verbatim>\<open>_normalize_timeout\<close> puts the default timeout in
  place of \<^verbatim>\<open>None\<close>; it returns \<open>-1\<close> when the value is then \<open>0\<close> and returns every other
  value unchanged, a positive \<open>N\<close> in particular. For the timeouts of the spec
  (unspecified, \<open>0\<close> or positive, the default not negative) it returns \<open>-1\<close> exactly when
  the value is \<open>0\<close>. It reads nothing but the default timeout and its argument.
\<close>

theorem normalize_timeout_cases:
  "normalize_timeout self None = normalize_timeout self (Some (default_timeout self)) \<and>
   (BaseCache_normalize_timeout self timeout = 0 \<longrightarrow> normalize_timeout self timeout = - 1) \<and>
   (BaseCache_normalize_timeout self timeout \<noteq> 0 \<longrightarrow>
      normalize_timeout self timeout = BaseCache_normalize_timeout self timeout) \<and>
   (timeout_in_domain self timeout \<longrightarrow>
      (normalize_timeout self timeout = - 1 \<longleftrightarrow>
       BaseCache_normalize_timeout self timeout = 0)) \<and>
   (0 < N \<longrightarrow> normalize_timeout self (Some N) = N) \<and>
   (default_timeout self' = default_timeout self \<longrightarrow>
      normalize_timeout self' timeout = normalize_timeout self timeout)"
  by (auto simp: normalize_timeout_def BaseCache_normalize_timeout_def timeout_in_domain_def
      Let_def split: option.splits)

text \<open>The default of 300 seconds, the timeout \<open>0\<close> and a positive timeout.\<close>

theorem normalize_timeout_cases_witness:
  "timeout_in_domain cache0 None \<and> normalize_timeout cache0 None = 300 \<and>
   timeout_in_domain cache0 (Some 0) \<and> BaseCache_normalize_timeout cache0 (Some 0) = 0 \<and>
   normalize_timeout cache0 (Some 0) = - 1 \<and>
   timeout_in_domain cache0 (Some 7) \<and> normalize_timeout cache0 (Some 7) = 7 \<and>
   normalize_timeout cache0 (Some 7) \<noteq> - 1"
proof -
  have d: "timeout_in_domain cache0 None" "timeout_in_domain cache0 (Some 0)"
    "timeout_in_domain cache0 (Some 7)"
    by (simp_all add: timeout_in_domain_def cache0_def)
  have v: "BaseCache_normalize_timeout cache0 (Some 0) = 0"
    "BaseCache_normalize_timeout cache0 (Some 7) = 7"
    "BaseCache_normalize_timeout cache0 (Some 300) = 300"
    by (simp_all add: BaseCache_normalize_timeout_def)
  have dt: "default_timeout cache0 = 300" by (simp add: cache0_def)
  show ?thesis
    using normalize_timeout_cases[of cache0 "Some 0" 7 cache0]
      normalize_timeout_cases[of cache0 "Some 7" 7 cache0]
      normalize_timeout_cases[of cache0 "Some 300" 300 cache0] d v dt
    by simp
qed

text \<open>
  Claim C4 (\<^verbatim>\<open>set\<close>). With the value encoded as \<open>dump\<close>: when the normalized timeout
  is \<open>-1\<close>, \<^verbatim>\<open>set\<close> issues the one command \<^verbatim>\<open>SET\<close> on the prefixed key and returns what
  the client returns; otherwise it issues the one command \<^verbatim>\<open>SETEX\<close> with the normalized
  seconds and returns what the client returns. On the reference store the entry then has
  no time to live in the first case, and the normalized seconds in the second.
\<close>

theorem set_dispatch:
  assumes "dump_object P value = Inr dump" and "client self = Some c"
  shows
    "(normalize_timeout self timeout = - 1 \<longrightarrow>
        set_op self P key value timeout (log, s) =
          (fst (client_set c (key_prefix self @ key) dump s),
           log @ [SET (key_prefix self @ key) dump],
           snd (client_set c (key_prefix self @ key) dump s))) \<and>
     (normalize_timeout self timeout \<noteq> - 1 \<longrightarrow>
        set_op self P key value timeout (log, s) =
          (fst (client_setex c (key_prefix self @ key) dump (normalize_timeout self timeout) s),
           log @ [SETEX (key_prefix self @ key) dump (normalize_timeout self timeout)],
           snd (client_setex c (key_prefix self @ key) dump (normalize_timeout self timeout) s))) \<and>
     (c = redis_server \<and> normalize_timeout self timeout = - 1 \<longrightarrow>
        fst (set_op self P key value timeout (log, s)) = Inr (Some True) \<and>
        snd (snd (set_op self P key value timeout (log, s))) (key_prefix self @ key) =
          Some (dump, None)) \<and>
     (c = redis_server \<and> 0 < normalize_timeout self timeout \<longrightarrow>
        fst (set_op self P key value timeout (log, s)) = Inr (Some True) \<and>
        snd (snd (set_op self P key value timeout (log, s))) (key_prefix self @ key) =
          Some (dump, Some (normalize_timeout self timeout)))"
  using assms
  by (auto simp: set_op_def get_client_def issue_def Let_def redis_server_def redis_set_def
      redis_setex_def split: prod.splits)

text \<open>
  \<^verbatim>\<open>set("b", True, timeout=0)\<close> and \<^verbatim>\<open>set("b", True)\<close> on the empty reference store.
\<close>

theorem set_dispatch_witness:
  "dump_object pickle0 (PyBool True) = Inr [CHR ''!'', CHR ''I'', CHR ''0'', CHR ''1'', CHR 0x0A, CHR ''.''] \<and>
   client cache0 = Some redis_server \<and>
   normalize_timeout cache0 (Some 0) = - 1 \<and>
   set_op cache0 pickle0 ''b'' (PyBool True) (Some 0) ([], Map.empty) =
     (Inr (Some True),
      [SET ''p:b'' [CHR ''!'', CHR ''I'', CHR ''0'', CHR ''1'', CHR 0x0A, CHR ''.'']],
      [''p:b'' \<mapsto> ([CHR ''!'', CHR ''I'', CHR ''0'', CHR ''1'', CHR 0x0A, CHR ''.''], None)]) \<and>
   normalize_timeout cache0 None \<noteq> - 1 \<and>
   set_op cache0 pickle0 ''b'' (PyBool True) None ([], Map.empty) =
     (Inr (Some True),
      [SETEX ''p:b'' [CHR ''!'', CHR ''I'', CHR ''0'', CHR ''1'', CHR 0x0A, CHR ''.''] 300],
      [''p:b'' \<mapsto> ([CHR ''!'', CHR ''I'', CHR ''0'', CHR ''1'', CHR 0x0A, CHR ''.''], Some 300)])"
proof -
  have d: "dump_object pickle0 (PyBool True) = Inr [CHR ''!'', CHR ''I'', CHR ''0'', CHR ''1'', CHR 0x0A, CHR ''.'']"
    by (simp add: dump_object_def pickle0_def)
  have c: "client cache0 = Some redis_server" by (simp add: cache0_def)
  have n0: "normalize_timeout cache0 (Some 0) = - 1"
    by (simp add: normalize_timeout_def BaseCache_normalize_timeout_def)
  have n1: "normalize_timeout cache0 None = 300"
    by (simp add: normalize_timeout_def BaseCache_normalize_timeout_def cache0_def)
  have p: "key_prefix cache0 = ''p:''" by (simp add: cache0_def)
  show ?thesis
    using set_dispatch[OF d c, of "Some 0" "''b''" "[]" Map.empty]
      set_dispatch[OF d c, of None "''b''" "[]" Map.empty] d c n0 n1 p
    by (simp add: redis_server_def redis_set_def redis_setex_def)
qed

text \<open>
  When the value cannot be encoded, or no client is held, \<^verbatim>\<open>set\<close> and \<^verbatim>\<open>add\<close> raise
  before any command is issued.
\<close>

lemma set_op_raises:
  "dump_object P v = Inl e \<Longrightarrow> set_op self P key v timeout w = (Inl e, w)"
  "dump_object P v = Inr dump \<Longrightarrow> client self = None \<Longrightarrow>
   set_op self P key v timeout w = (Inl AttributeError, w)"
  by (simp_all add: set_op_def get_client_def)

lemma add_raises:
  "dump_object P v = Inl e \<Longrightarrow> add self P key v timeout w = (Inl e, w)"
  "dump_object P v = Inr dump \<Longrightarrow> client self = None \<Longrightarrow>
   add self P key v timeout w = (Inl AttributeError, w)"
  by (simp_all add: add_def get_client_def)

text \<open>
  On the reference store, \<^verbatim>\<open>get\<close> after \<^verbatim>\<open>set\<close> returns the value, for an integer of at
  most 4300 digits and for a value of another type that the pickle module supports, when
  the timeout is none or positive.
\<close>

lemma set_then_get:
  assumes "client self = Some redis_server"
    and "(\<exists>n. v = PyInt n \<and> int_digits n \<le> max_str_digits) \<or>
         (\<not> type_is_int v \<and> pickle_supports P v)"
    and "normalize_timeout self timeout = - 1 \<or> 0 < normalize_timeout self timeout"
  shows "fst (get self P key (snd (set_op self P key v timeout w))) = Inr v"
proof -
  have "\<exists>b. dump_object P v = Inr b \<and> load_object P (Some b) = Inr v"
  proof (cases "type_is_int v")
    case True
    with assms(2) obtain n where "v = PyInt n" "int_digits n \<le> max_str_digits" by auto
    then show ?thesis by (simp add: dump_object_int str_int_cases load_int_text)
  next
    case False
    with assms(2) obtain b where b: "dumps P v = Inr b" "loads P b = Inr v"
      by (auto simp: pickle_supports_def split: sum.splits)
    then show ?thesis
      using dump_object_other[OF False, of P] by (simp add: load_object_tagged)
  qed
  then obtain b where b: "dump_object P v = Inr b" "load_object P (Some b) = Inr v" by blast
  obtain log s where w: "w = (log, s)" by (cases w)
  show ?thesis
    using assms(1,3) b w
    by (auto simp: set_op_def get_def get_client_def issue_def redis_server_def redis_set_def
        redis_setex_def redis_get_def Let_def)
qed

text \<open>
  Claim C5 (\<^verbatim>\<open>add\<close>). \<^verbatim>\<open>add\<close> issues \<^verbatim>\<open>SETNX\<close> on the prefixed key; it issues
  \<^verbatim>\<open>EXPIRE\<close> with the normalized timeout after it exactly when \<^verbatim>\<open>SETNX\<close> returned true,
  and otherwise returns what \<^verbatim>\<open>SETNX\<close> returned; it returns true only if both calls
  returned true; and on the reference store, \<^verbatim>\<open>add\<close> on a key that is present returns
  false and leaves the store as it was, the value and its time to live included.
\<close>

theorem add_semantics:
  assumes "dump_object P value = Inr dump" and "client self = Some c"
    and "client_setnx c (key_prefix self @ key) dump s = (r, s1)"
  shows
    "(r \<noteq> Inr True \<longrightarrow>
        add self P key value timeout (log, s) =
          (r, log @ [SETNX (key_prefix self @ key) dump], s1)) \<and>
     (r = Inr True \<longrightarrow>
        add self P key value timeout (log, s) =
          (fst (client_expire c (key_prefix self @ key) (normalize_timeout self timeout) s1),
           log @ [SETNX (key_prefix self @ key) dump,
                  EXPIRE (key_prefix self @ key) (normalize_timeout self timeout)],
           snd (client_expire c (key_prefix self @ key) (normalize_timeout self timeout) s1))) \<and>
     (fst (add self P key value timeout (log, s)) = Inr True \<longrightarrow>
        r = Inr True \<and>
        fst (client_expire c (key_prefix self @ key) (normalize_timeout self timeout) s1) = Inr True) \<and>
     (c = redis_server \<and> s (key_prefix self @ key) \<noteq> None \<longrightarrow>
        add self P key value timeout (log, s) =
          (Inr False, log @ [SETNX (key_prefix self @ key) dump], s))"
proof -
  let ?k = "key_prefix self @ key"
  let ?t = "normalize_timeout self timeout"
  have a1: "r \<noteq> Inr True \<Longrightarrow>
      add self P key value timeout (log, s) = (r, log @ [SETNX ?k dump], s1)"
    using assms by (cases r) (auto simp: add_def get_client_def issue_def Let_def)
  have a2: "r = Inr True \<Longrightarrow>
      add self P key value timeout (log, s) =
        (fst (client_expire c ?k ?t s1), log @ [SETNX ?k dump, EXPIRE ?k ?t],
         snd (client_expire c ?k ?t s1))"
    using assms by (auto simp: add_def get_client_def issue_def Let_def split: prod.splits)
  have a3: "fst (add self P key value timeout (log, s)) = Inr True \<Longrightarrow>
      r = Inr True \<and> fst (client_expire c ?k ?t s1) = Inr True"
    using a1 a2 by (cases "r = Inr True") auto
  have a4: "c = redis_server \<and> s ?k \<noteq> None \<Longrightarrow>
      add self P key value timeout (log, s) = (Inr False, log @ [SETNX ?k dump], s)"
  proof -
    assume h: "c = redis_server \<and> s ?k \<noteq> None"
    with assms(3) have "r = Inr False" "s1 = s"
      by (auto simp: redis_server_def redis_setnx_def split: option.splits)
    with a1 show ?thesis by simp
  qed
  from a1 a2 a3 a4 show ?thesis by blast
qed

text \<open>
  \<^verbatim>\<open>add("a", 42, timeout=5)\<close> on a store that holds the key, and on the empty store.
\<close>

theorem add_semantics_witness:
  "dump_object pickle0 (PyInt 42) = Inr ''42'' \<and> client cache0 = Some redis_server \<and>
   client_setnx redis_server (key_prefix cache0 @ ''a'') ''42'' [''p:a'' \<mapsto> (''7'', Some 60)] =
     (Inr False, [''p:a'' \<mapsto> (''7'', Some 60)]) \<and>
   add cache0 pickle0 ''a'' (PyInt 42) (Some 5) ([], [''p:a'' \<mapsto> (''7'', Some 60)]) =
     (Inr False, [SETNX ''p:a'' ''42''], [''p:a'' \<mapsto> (''7'', Some 60)]) \<and>
   client_setnx redis_server (key_prefix cache0 @ ''a'') ''42'' Map.empty =
     (Inr True, [''p:a'' \<mapsto> (''42'', None)]) \<and>
   add cache0 pickle0 ''a'' (PyInt 42) (Some 5) ([], Map.empty) =
     (Inr True, [SETNX ''p:a'' ''42'', EXPIRE ''p:a'' 5], [''p:a'' \<mapsto> (''42'', Some 5)])"
proof -
  have d: "dump_object pickle0 (PyInt 42) = Inr ''42''"
    by (simp add: dump_object_def) code_simp
  have c: "client cache0 = Some redis_server" by (simp add: cache0_def)
  have p: "key_prefix cache0 = ''p:''" by (simp add: cache0_def)
  have n: "normalize_timeout cache0 (Some 5) = 5"
    by (simp add: normalize_timeout_def BaseCache_normalize_timeout_def)
  have s1: "client_setnx redis_server (key_prefix cache0 @ ''a'') ''42'' [''p:a'' \<mapsto> (''7'', Some 60)] =
     (Inr False, [''p:a'' \<mapsto> (''7'', Some 60)])"
    by (simp add: redis_server_def redis_setnx_def p)
  have s2: "client_setnx redis_server (key_prefix cache0 @ ''a'') ''42'' Map.empty =
     (Inr True, [''p:a'' \<mapsto> (''42'', None)])"
    by (simp add: redis_server_def redis_setnx_def p)
  have e: "client_expire redis_server ''p:a'' 5 [''p:a'' \<mapsto> (''42'', None)] =
     (Inr True, [''p:a'' \<mapsto> (''42'', Some 5)])"
    by (simp add: redis_server_def redis_expire_def)
  show ?thesis
    using add_semantics[OF d c s1, of "Some 5" "[]"] add_semantics[OF d c s2, of "Some 5" "[]"]
      d c s1 s2 e p n
    by simp
qed

text \<open>
  What \<^verbatim>\<open>get_many\<close> does: it prefixes every key, issues the one command \<^verbatim>\<open>MGET\<close> on the
  prefixed keys in their order, and decodes the replies in order. It returns a sequence
  exactly when every reply decodes without raising; the sequence is then as long as the
  replies and holds the decoded reply at each position. On the reference store it is as
  long as the keys and holds \<^verbatim>\<open>None\<close> at the position of each key that is missing.
\<close>

lemma get_many_shape:
  assumes "client self = Some c"
    and "client_mget c (map (\<lambda>key. key_prefix self @ key) keys) s = (Inr xs, s1)"
  shows
    "get_many self P keys (log, s) =
       (load_objects P xs, log @ [MGET (map (\<lambda>key. key_prefix self @ key) keys)], s1) \<and>
     ((\<exists>vs. load_objects P xs = Inr vs) \<longleftrightarrow> (\<forall>x \<in> set xs. \<exists>v. load_object P x = Inr v)) \<and>
     (\<forall>vs. fst (get_many self P keys (log, s)) = Inr vs \<longrightarrow>
        length vs = length xs \<and> (\<forall>i < length xs. load_object P (xs ! i) = Inr (vs ! i))) \<and>
     (c = redis_server \<longrightarrow>
        xs = map (\<lambda>key. map_option fst (s (key_prefix self @ key))) keys \<and>
        (\<forall>vs. fst (get_many self P keys (log, s)) = Inr vs \<longrightarrow>
           length vs = length keys \<and>
           (\<forall>i < length keys.
              load_object P (map_option fst (s (key_prefix self @ keys ! i))) = Inr (vs ! i) \<and>
              (s (key_prefix self @ keys ! i) = None \<longrightarrow> vs ! i = PyNone))))"
proof -
  have g: "get_many self P keys (log, s) =
       (load_objects P xs, log @ [MGET (map (\<lambda>key. key_prefix self @ key) keys)], s1)"
    using assms by (simp add: get_many_def get_client_def issue_def prefixed_map)
  have sh: "\<forall>vs. fst (get_many self P keys (log, s)) = Inr vs \<longrightarrow>
        length vs = length xs \<and> (\<forall>i < length xs. load_object P (xs ! i) = Inr (vs ! i))"
    using g load_objects_Inr by simp
  have r: "c = redis_server \<longrightarrow>
        xs = map (\<lambda>key. map_option fst (s (key_prefix self @ key))) keys \<and>
        (\<forall>vs. fst (get_many self P keys (log, s)) = Inr vs \<longrightarrow>
           length vs = length keys \<and>
           (\<forall>i < length keys.
              load_object P (map_option fst (s (key_prefix self @ keys ! i))) = Inr (vs ! i) \<and>
              (s (key_prefix self @ keys ! i) = None \<longrightarrow> vs ! i = PyNone)))"
  proof (intro impI)
    assume c: "c = redis_server"
    with assms(2) have xs: "xs = map (\<lambda>key. map_option fst (s (key_prefix self @ key))) keys"
      by (auto simp: redis_server_def redis_mget_def)
    show "xs = map (\<lambda>key. map_option fst (s (key_prefix self @ key))) keys \<and>
        (\<forall>vs. fst (get_many self P keys (log, s)) = Inr vs \<longrightarrow>
           length vs = length keys \<and>
           (\<forall>i < length keys.
              load_object P (map_option fst (s (key_prefix self @ keys ! i))) = Inr (vs ! i) \<and>
              (s (key_prefix self @ keys ! i) = None \<longrightarrow> vs ! i = PyNone)))"
    proof (intro conjI allI impI)
      show "xs = map (\<lambda>key. map_option fst (s (key_prefix self @ key))) keys" by (rule xs)
    next
      fix vs assume "fst (get_many self P keys (log, s)) = Inr vs"
      with sh have "length vs = length xs" by blast
      then show "length vs = length keys" using xs by simp
    next
      fix vs i assume v: "fst (get_many self P keys (log, s)) = Inr vs" and i: "i < length keys"
      with sh xs have "load_object P (xs ! i) = Inr (vs ! i)" by simp
      then show l: "load_object P (map_option fst (s (key_prefix self @ keys ! i))) = Inr (vs ! i)"
        using xs i by simp
      assume "s (key_prefix self @ keys ! i) = None"
      with l show "vs ! i = PyNone" by (simp add: load_object_def)
    qed
  qed
  from g sh r load_objects_returns_iff[of P xs] show ?thesis by blast
qed

text \<open>Three keys, the second of them missing.\<close>

lemma get_many_example:
  "client cache0 = Some redis_server \<and>
   client_mget redis_server (map (\<lambda>key. key_prefix cache0 @ key) [''a'', ''x'', ''b''])
     [''p:a'' \<mapsto> (''42'', None), ''p:b'' \<mapsto> (''!N.'', Some 9)] =
     (Inr [Some ''42'', None, Some ''!N.''], [''p:a'' \<mapsto> (''42'', None), ''p:b'' \<mapsto> (''!N.'', Some 9)]) \<and>
   get_many cache0 pickle0 [''a'', ''x'', ''b'']
     ([], [''p:a'' \<mapsto> (''42'', None), ''p:b'' \<mapsto> (''!N.'', Some 9)]) =
     (Inr [PyInt 42, PyNone, PyNone], [MGET [''p:a'', ''p:x'', ''p:b'']],
      [''p:a'' \<mapsto> (''42'', None), ''p:b'' \<mapsto> (''!N.'', Some 9)])"
proof -
  let ?s = "[''p:a'' \<mapsto> (''42'', None), ''p:b'' \<mapsto> (''!N.'', Some 9)] :: redis_db"
  have c: "client cache0 = Some redis_server" by (simp add: cache0_def)
  have p: "key_prefix cache0 = ''p:''" by (simp add: cache0_def)
  have m: "client_mget redis_server (map (\<lambda>key. key_prefix cache0 @ key) [''a'', ''x'', ''b'']) ?s =
     (Inr [Some ''42'', None, Some ''!N.''], ?s)"
    by (simp add: redis_server_def redis_mget_def p)
  have l1: "load_object pickle0 (Some ''42'') = Inr (PyInt 42)" by code_simp
  have l2: "load_object pickle0 None = Inr PyNone" by code_simp
  have l3: "load_object pickle0 (Some ''!N.'') = Inr PyNone" by code_simp
  show ?thesis
    using get_many_shape[OF c m, of pickle0 "[]"] c m l1 l2 l3 p
    by simp
qed

text \<open>
  Claim C6 says that \<^verbatim>\<open>get_many\<close> returns, for every list of keys, a sequence as long as
  the keys. The code does not do so when the store holds the truncated payload \<^verbatim>\<open>b"!"\<close>
  under a requested key: \<^verbatim>\<open>load_object\<close> raises \<^verbatim>\<open>EOFError\<close> there, \<^verbatim>\<open>get_many\<close> has
  no handler of its own, and the call raises instead of returning a sequence.
\<close>

theorem get_many_truncated_raises:
  "get_many cache0 pickle0 [''k''] ([], truncated_db) =
     (Inl EOFError, [MGET [''p:k'']], truncated_db)"
  by (simp add: get_many_def get_client_def issue_def prefixed_def cache0_def redis_server_def
      redis_mget_def load_object_def startswith_def pickle0_def truncated_db_def)

text \<open>
  Claim C8 (\<^verbatim>\<open>delete_many\<close>). With no keys it returns \<^verbatim>\<open>None\<close> and the world is as it
  was: no command is issued. With keys it issues the one command \<^verbatim>\<open>DEL\<close> on the
  prefixed keys and returns the count the client returns; on the reference store that is
  the number of keys removed, and it is \<open>0\<close>, which is not \<^verbatim>\<open>None\<close>, when all the keys
  are missing.
\<close>

theorem delete_many_signal:
  "delete_many self [] w = (Inr None, w) \<and>
   (keys \<noteq> [] \<and> client self = Some c \<and>
    client_delete c (map (\<lambda>key. key_prefix self @ key) keys) s = (r, s1) \<longrightarrow>
      delete_many self keys (log, s) =
        (case r of Inl e \<Rightarrow> Inl e | Inr n \<Rightarrow> Inr (Some n),
         log @ [DEL (map (\<lambda>key. key_prefix self @ key) keys)], s1)) \<and>
   (keys \<noteq> [] \<and> client self = Some redis_server \<longrightarrow>
      delete_many self keys (log, s) =
        (Inr (Some (int (card (set (map (\<lambda>key. key_prefix self @ key) keys) \<inter> dom s)))),
         log @ [DEL (map (\<lambda>key. key_prefix self @ key) keys)],
         (\<lambda>k. if k \<in> set (map (\<lambda>key. key_prefix self @ key) keys) then None else s k))) \<and>
   (keys \<noteq> [] \<and> client self = Some redis_server \<and>
    (\<forall>key \<in> set keys. s (key_prefix self @ key) = None) \<longrightarrow>
      fst (delete_many self keys (log, s)) = Inr (Some 0) \<and>
      fst (delete_many self keys (log, s)) \<noteq> fst (delete_many self [] (log, s)))"
proof -
  let ?pk = "map (\<lambda>key. key_prefix self @ key) keys"
  have a: "delete_many self [] w = (Inr None, w)"
    by (simp add: delete_many_def)
  have b: "keys \<noteq> [] \<and> client self = Some c \<and> client_delete c ?pk s = (r, s1) \<longrightarrow>
      delete_many self keys (log, s) =
        (case r of Inl e \<Rightarrow> Inl e | Inr n \<Rightarrow> Inr (Some n), log @ [DEL ?pk], s1)"
    by (cases r) (auto simp: delete_many_def get_client_def issue_def prefixed_map Let_def)
  have c: "keys \<noteq> [] \<and> client self = Some redis_server \<longrightarrow>
      delete_many self keys (log, s) =
        (Inr (Some (int (card (set ?pk \<inter> dom s)))), log @ [DEL ?pk],
         (\<lambda>k. if k \<in> set ?pk then None else s k))"
    using count_present[of s ?pk]
    by (simp add: delete_many_def get_client_def issue_def prefixed_map Let_def redis_server_def
        redis_delete_def)
  have d: "keys \<noteq> [] \<and> client self = Some redis_server \<and>
    (\<forall>key \<in> set keys. s (key_prefix self @ key) = None) \<longrightarrow>
      fst (delete_many self keys (log, s)) = Inr (Some 0) \<and>
      fst (delete_many self keys (log, s)) \<noteq> fst (delete_many self [] (log, s))"
  proof (intro impI)
    assume h: "keys \<noteq> [] \<and> client self = Some redis_server \<and>
      (\<forall>key \<in> set keys. s (key_prefix self @ key) = None)"
    then have "set ?pk \<inter> dom s = {}" by (auto simp: dom_def)
    with c h have "fst (delete_many self keys (log, s)) = Inr (Some 0)" by simp
    then show "fst (delete_many self keys (log, s)) = Inr (Some 0) \<and>
      fst (delete_many self keys (log, s)) \<noteq> fst (delete_many self [] (log, s))"
      by (simp add: delete_many_def)
  qed
  from a b c d show ?thesis by blast
qed

text \<open>
  No keys, a missing key, and a present key with a missing one.
\<close>

theorem delete_many_signal_witness:
  "delete_many cache0 [] ([], [''p:a'' \<mapsto> (''1'', None)]) = (Inr None, [], [''p:a'' \<mapsto> (''1'', None)]) \<and>
   [''x''] \<noteq> [] \<and> client cache0 = Some redis_server \<and>
   [''p:a'' \<mapsto> (''1'', None)] (key_prefix cache0 @ ''x'') = None \<and>
   fst (delete_many cache0 [''x''] ([], [''p:a'' \<mapsto> (''1'', None)])) = Inr (Some 0) \<and>
   fst (delete_many cache0 [''a'', ''x''] ([], [''p:a'' \<mapsto> (''1'', None)])) = Inr (Some 1) \<and>
   fst (snd (delete_many cache0 [''a'', ''x''] ([], [''p:a'' \<mapsto> (''1'', None)]))) = [DEL [''p:a'', ''p:x'']]"
proof -
  let ?s = "[''p:a'' \<mapsto> (''1'', None)] :: redis_db"
  have c: "client cache0 = Some redis_server" by (simp add: cache0_def)
  have p: "key_prefix cache0 = ''p:''" by (simp add: cache0_def)
  have m: "\<forall>key \<in> set [''x'']. ?s (key_prefix cache0 @ key) = None" by (simp add: p)
  have k: "set (map (\<lambda>key. key_prefix cache0 @ key) [''a'', ''x'']) \<inter> dom ?s = {''p:a''}"
    by (auto simp: p)
  show ?thesis
    using delete_many_signal[of cache0 "([], ?s)" "[''x'']" redis_server ?s "Inr 0" ?s "[]"]
      delete_many_signal[of cache0 "([], ?s)" "[''a'', ''x'']" redis_server ?s "Inr 0" ?s "[]"]
      c m k p
    by simp
qed

text \<open>
  Claim C9, as stated, says that a \<^verbatim>\<open>decode_responses\<close> option makes every construction
  fail. It fails when the first argument is a client object: the option is looked at
  only for a string address.
\<close>

theorem init_fail_fast_counterexample:
  "init (Some redis0) (HostClient redis_server) 6379 None 0 300 None
     [(''decode_responses'', PyBool True)] =
   Inr \<lparr>default_timeout = 300, key_prefix = [], client = None\<rparr>"
  by (simp add: init_def BaseCache_init_def)

text \<open>
  Claim C9, amended. A \<^verbatim>\<open>None\<close> address fails with \<^verbatim>\<open>ValueError\<close> whatever the other
  arguments are. With a string address, construction fails with \<^verbatim>\<open>RuntimeError\<close> when
  the \<^verbatim>\<open>redis\<close> module is missing and with \<^verbatim>\<open>ValueError\<close> when \<^verbatim>\<open>decode_responses\<close> is
  requested; otherwise it holds the client that \<^verbatim>\<open>redis.Redis\<close> returns, or fails as
  \<^verbatim>\<open>redis.Redis\<close> does. With a client object as the first argument construction does
  not fail, whatever the options are.
\<close>

theorem init_fail_fast:
  "init redis HostNone port password db dt prefix kwargs = Inl ValueError \<and>
   (truthy (kwargs_get kwargs ''decode_responses'' PyNone) \<longrightarrow>
      init redis (HostStr h) port password db dt prefix kwargs =
        (case redis of None \<Rightarrow> Inl RuntimeError | Some R \<Rightarrow> Inl ValueError)) \<and>
   (redis = None \<longrightarrow> init redis (HostStr h) port password db dt prefix kwargs = Inl RuntimeError) \<and>
   (\<not> truthy (kwargs_get kwargs ''decode_responses'' PyNone) \<and> redis = Some R \<longrightarrow>
      init redis (HostStr h) port password db dt prefix kwargs =
        (case R h port password db kwargs of
           Inl e \<Rightarrow> Inl e
         | Inr c \<Rightarrow> Inr \<lparr>default_timeout = dt,
                         key_prefix = (case prefix of None \<Rightarrow> [] | Some p \<Rightarrow> p),
                         client = Some c\<rparr>)) \<and>
   (\<exists>self. init redis (HostClient c') port password db dt prefix kwargs = Inr self \<and>
      default_timeout self = dt \<and>
      key_prefix self = (case prefix of None \<Rightarrow> [] | Some p \<Rightarrow> p))"
  by (auto simp: init_def BaseCache_init_def Let_def split: option.splits sum.splits)

text \<open>
  A \<^verbatim>\<open>None\<close> address, a string address with \<^verbatim>\<open>decode_responses=True\<close>, and a string
  address with the prefix \<^verbatim>\<open>p:\<close>.
\<close>

theorem init_fail_fast_witness:
  "init (Some redis0) HostNone 6379 None 0 300 None [] = Inl ValueError \<and>
   truthy (kwargs_get [(''decode_responses'', PyBool True)] ''decode_responses'' PyNone) \<and>
   init (Some redis0) (HostStr ''localhost'') 6379 None 0 300 None [(''decode_responses'', PyBool True)] =
     Inl ValueError \<and>
   \<not> truthy (kwargs_get [] ''decode_responses'' PyNone) \<and>
   init (Some redis0) (HostStr ''localhost'') 6379 None 0 300 (Some ''p:'') [] = Inr cache0"
proof -
  have t: "truthy (kwargs_get [(''decode_responses'', PyBool True)] ''decode_responses'' PyNone)"
    by (simp add: kwargs_get_def)
  have f: "\<not> truthy (kwargs_get [] ''decode_responses'' PyNone)"
    by (simp add: kwargs_get_def)
  show ?thesis
    using init_fail_fast[of "Some redis0" 6379 None 0 300 None "[(''decode_responses'', PyBool True)]" "''localhost''" redis0 redis_server]
      init_fail_fast[of "Some redis0" 6379 None 0 300 "Some ''p:''" "[]" "''localhost''" redis0 redis_server]
      init_fail_fast[of "Some redis0" 6379 None 0 300 None "[]" "''localhost''" redis0 redis_server]
      t f
    by (simp add: redis0_def cache0_def)
qed

text \<open>
  The constructor has no branch for a first argument that is a client object, although
  its docstring allows one: \<^verbatim>\<open>self._client\<close> is then never assigned, and the first
  operation raises \<^verbatim>\<open>AttributeError\<close>.
\<close>

lemma init_client_object_unusable:
  "init redis (HostClient c) port password db dt prefix kwargs = Inr self \<Longrightarrow>
   client self = None \<and> get self P key w = (Inl AttributeError, w)"
  by (auto simp: init_def BaseCache_init_def get_def get_client_def)

end
